theory Spec2Isabelle
  imports Main "HOL-Library.Word"
begin

section \<open>Data model (include/parser/parser.h, include/instruction.h)\<close>

text \<open>
  The AST classes of \<^verbatim>\<open>parser.h\<close> become datatypes, one constructor per concrete
  class. Every node keeps its \<^verbatim>\<open>Span\<close>. An \<^verbatim>\<open>Expr\<close> also keeps the
  mutable slot \<^verbatim>\<open>type\<close> (a null \<^verbatim>\<open>unique_ptr\<close> is \<open>None\<close>), and an
  \<^verbatim>\<open>Identifier\<close> its mutable flag \<^verbatim>\<open>is_mut_binding\<close>: the type checker writes
  both, so the checker below returns the rewritten node. The \<^verbatim>\<open>shared_ptr<Scope>\<close>
  of a statement is written by the parser only and read by no later stage; it is left out.
  \<^verbatim>\<open>size_t\<close> is a 64-bit word (the host of the spec), \<^verbatim>\<open>int\<close> a 32-bit word.
\<close>

type_synonym size_t = "64 word"

datatype Span = Span (span_start: nat) (span_end: nat)

datatype Kind = I32 | Bool | Str | Ref | MutRef

datatype Type = Type (kind: Kind) (base_type: "Type option") (tspan: Span)

datatype BinaryOp = Add | Sub | Mul | Div | Eq | Ne | Lt | Gt | Le | Ge | And | Or | Assignment

datatype UnaryOp = Neg | NotOp

datatype Expr =
    IntLiteral Span "Type option" "32 word"
  | BoolLiteral Span "Type option" bool
  | StringLiteral Span "Type option" string
  | Identifier Span "Type option" string bool
  | BinaryExpr Span "Type option" BinaryOp Expr Expr
  | UnaryExpr Span "Type option" UnaryOp Expr
  | BorrowExpr Span "Type option" bool Expr
  | CallExpr Span "Type option" Expr "Expr list"

datatype Stmt =
    LetStmt Span bool string Type Expr
  | ExprStmt Span Expr
  | IfStmt Span Expr Stmt "Stmt option"
  | WhileStmt Span Expr Stmt
  | BlockStmt Span "Stmt list"

datatype Param = Param (param_is_mut: bool) (pname: string) (ptype: Type) (pspan: Span)

datatype FunctionDecl =
  FunctionDecl (fspan: Span) (fname: string) (params: "Param list")
    (return_type: Type) (body: Stmt)

text \<open>The parser only ever puts \<^verbatim>\<open>FunctionDecl\<close> nodes into \<^verbatim>\<open>Program::items\<close>.\<close>

datatype Program = Program (prog_span: Span) (items: "FunctionDecl list")

fun expr_span :: "Expr \<Rightarrow> Span" where
  "expr_span (IntLiteral sp t v) = sp"
| "expr_span (BoolLiteral sp t b) = sp"
| "expr_span (StringLiteral sp t s) = sp"
| "expr_span (Identifier sp t n m) = sp"
| "expr_span (BinaryExpr sp t oper l r) = sp"
| "expr_span (UnaryExpr sp t oper e) = sp"
| "expr_span (BorrowExpr sp t m e) = sp"
| "expr_span (CallExpr sp t c as) = sp"

fun expr_type :: "Expr \<Rightarrow> Type option" where
  "expr_type (IntLiteral sp t v) = t"
| "expr_type (BoolLiteral sp t b) = t"
| "expr_type (StringLiteral sp t s) = t"
| "expr_type (Identifier sp t n m) = t"
| "expr_type (BinaryExpr sp t oper l r) = t"
| "expr_type (UnaryExpr sp t oper e) = t"
| "expr_type (BorrowExpr sp t m e) = t"
| "expr_type (CallExpr sp t c as) = t"

fun set_expr_type :: "Type option \<Rightarrow> Expr \<Rightarrow> Expr" where
  "set_expr_type t' (IntLiteral sp t v) = IntLiteral sp t' v"
| "set_expr_type t' (BoolLiteral sp t b) = BoolLiteral sp t' b"
| "set_expr_type t' (StringLiteral sp t s) = StringLiteral sp t' s"
| "set_expr_type t' (Identifier sp t n m) = Identifier sp t' n m"
| "set_expr_type t' (BinaryExpr sp t oper l r) = BinaryExpr sp t' oper l r"
| "set_expr_type t' (UnaryExpr sp t oper e) = UnaryExpr sp t' oper e"
| "set_expr_type t' (BorrowExpr sp t m e) = BorrowExpr sp t' m e"
| "set_expr_type t' (CallExpr sp t c as) = CallExpr sp t' c as"

text \<open>\<^verbatim>\<open>Type::clone\<close>: the deep copy.\<close>

fun clone :: "Type \<Rightarrow> Type" where
  "clone (Type k None sp) = Type k None sp"
| "clone (Type k (Some b) sp) = Type k (Some (clone b)) sp"

datatype Opcode =
    PUSH_I32 | PUSH_BOOL | PUSH_STR | POP | DUP | SWAP
  | LOAD | STORE | LOAD_REF | STORE_REF
  | ADD_I32 | SUB_I32 | MUL_I32 | DIV_I32 | NEG_I32
  | EQ_I32 | NE_I32 | LT_I32 | GT_I32 | LE_I32 | GE_I32
  | AND | OR | NOT
  | JMP | JMP_IF | JMP_IF_NOT | CALL | RET | RET_VAL
  | BORROW | BORROW_MUT | DEREF | DEREF_MUT

datatype Instruction = Instruction (opcode: Opcode) (operand: size_t)

text \<open>The one-argument constructor \<^verbatim>\<open>Instruction(Opcode)\<close> sets the operand to 0.\<close>

definition Instruction0 :: "Opcode \<Rightarrow> Instruction" where
  "Instruction0 opc = Instruction opc 0"

fun has_operand :: "Instruction \<Rightarrow> bool" where
  "has_operand (Instruction opc n) =
     (opc = PUSH_I32 \<or> opc = PUSH_BOOL \<or> opc = PUSH_STR \<or> opc = LOAD \<or> opc = STORE
      \<or> opc = LOAD_REF \<or> opc = JMP \<or> opc = JMP_IF \<or> opc = JMP_IF_NOT \<or> opc = CALL)"

text \<open>Everything the sources throw is a \<^verbatim>\<open>std::runtime_error\<close> but for what
  \<^verbatim>\<open>std::stoi\<close> throws on a literal that does not fit an \<^verbatim>\<open>int\<close>.\<close>

datatype exn = runtime_error string | out_of_range string

section \<open>Function table (src/function_table.cpp)\<close>

record FunctionInfo =
  entry_point :: nat
  num_params :: nat
  num_locals :: nat
  fi_return_type :: Type
  param_types :: "Type list"
  fi_name :: string

record FunctionTable =
  ft_functions :: "FunctionInfo list"
  name_to_index :: "string \<rightharpoonup> nat"

definition FunctionTable_new :: FunctionTable where
  "FunctionTable_new = \<lparr>ft_functions = [], name_to_index = Map.empty\<rparr>"

definition add_function :: "FunctionDecl \<Rightarrow> nat \<Rightarrow> FunctionTable \<Rightarrow> FunctionTable" where
  "add_function func ep ft =
     (let info = \<lparr>entry_point = ep, num_params = length (params func), num_locals = 0,
                  fi_return_type = clone (return_type func),
                  param_types = map (\<lambda>p. clone (ptype p)) (params func),
                  fi_name = fname func\<rparr>;
          index = length (ft_functions ft)
      in \<lparr>ft_functions = ft_functions ft @ [info],
          name_to_index = (name_to_index ft)(fname func \<mapsto> index)\<rparr>)"

definition get_function :: "FunctionTable \<Rightarrow> nat \<Rightarrow> exn + FunctionInfo" where
  "get_function ft index =
     (if index \<ge> length (ft_functions ft) then Inl (runtime_error ''Invalid function index'')
      else Inr (ft_functions ft ! index))"

definition get_function_index :: "FunctionTable \<Rightarrow> string \<Rightarrow> exn + nat" where
  "get_function_index ft nm =
     (case name_to_index ft nm of
        None \<Rightarrow> Inl (runtime_error (''Function not found: '' @ nm))
      | Some i \<Rightarrow> Inr i)"

section \<open>Compiler (src/compiler.cpp)\<close>

record Compiler =
  instructions :: "Instruction list"
  string_constants :: "string list"
  local_vars :: "string \<rightharpoonup> nat"
  next_local_index :: nat
  function_table :: FunctionTable

definition emit :: "Instruction \<Rightarrow> Compiler \<Rightarrow> Compiler" where
  "emit instr c = c\<lparr>instructions := instructions c @ [instr]\<rparr>"

text \<open>\<^verbatim>\<open>emit_instruction\<close> returns the index of the instruction it pushed.\<close>

definition emit_instruction :: "Opcode \<Rightarrow> size_t \<Rightarrow> Compiler \<Rightarrow> nat \<times> Compiler" where
  "emit_instruction opc n c =
     (length (instructions c), c\<lparr>instructions := instructions c @ [Instruction opc n]\<rparr>)"

definition get_local_index :: "string \<Rightarrow> Compiler \<Rightarrow> exn + nat" where
  "get_local_index nm c =
     (case local_vars c nm of
        None \<Rightarrow> Inl (runtime_error (''Undefined variable: '' @ nm))
      | Some i \<Rightarrow> Inr i)"

text \<open>\<^verbatim>\<open>instructions[i].operand = instructions.size()\<close>.\<close>

definition patch_operand :: "nat \<Rightarrow> Compiler \<Rightarrow> Compiler" where
  "patch_operand i c =
     c\<lparr>instructions := (instructions c)
          [i := Instruction (opcode (instructions c ! i)) (of_nat (length (instructions c)))]\<rparr>"

fun binary_opcode :: "BinaryOp \<Rightarrow> exn + Opcode" where
  "binary_opcode Add = Inr ADD_I32"
| "binary_opcode Sub = Inr SUB_I32"
| "binary_opcode Mul = Inr MUL_I32"
| "binary_opcode Div = Inr DIV_I32"
| "binary_opcode Eq = Inr EQ_I32"
| "binary_opcode Ne = Inr NE_I32"
| "binary_opcode Lt = Inr LT_I32"
| "binary_opcode Gt = Inr GT_I32"
| "binary_opcode Le = Inr LE_I32"
| "binary_opcode Ge = Inr GE_I32"
| "binary_opcode And = Inr AND"
| "binary_opcode Or = Inr OR"
| "binary_opcode Assignment = Inl (runtime_error ''Unknown binary operator'')"

text \<open>
  \<^verbatim>\<open>compile_expression\<close> with \<^verbatim>\<open>compile_identifier\<close>, \<^verbatim>\<open>compile_call\<close> and
  \<^verbatim>\<open>compile_borrow\<close> written in place. \<open>compile_args\<close> is the loop of
  \<^verbatim>\<open>compile_call\<close> from \<^verbatim>\<open>args.rbegin()\<close> to \<^verbatim>\<open>args.rend()\<close>: the tail of the list
  is lowered before its head.
\<close>

fun compile_expression :: "Expr \<Rightarrow> Compiler \<Rightarrow> exn + Compiler"
  and compile_args :: "Expr list \<Rightarrow> Compiler \<Rightarrow> exn + Compiler" where
  "compile_expression (BinaryExpr sp t oper l r) c =
     (if oper = Assignment then
        (case compile_expression r c of Inl e \<Rightarrow> Inl e
         | Inr c1 \<Rightarrow>
           (case l of
              Identifier sp' t' nm m \<Rightarrow>
                (case get_local_index nm c1 of Inl e \<Rightarrow> Inl e
                 | Inr index \<Rightarrow>
                     Inr (emit (Instruction LOAD (of_nat index))
                           (emit (Instruction STORE (of_nat index)) c1)))
            | _ \<Rightarrow> Inl (runtime_error ''Assignment target must be an identifier'')))
      else
        (case compile_expression l c of Inl e \<Rightarrow> Inl e
         | Inr c1 \<Rightarrow>
           (case compile_expression r c1 of Inl e \<Rightarrow> Inl e
            | Inr c2 \<Rightarrow>
              (case binary_opcode oper of Inl e \<Rightarrow> Inl e
               | Inr opc \<Rightarrow> Inr (emit (Instruction0 opc) c2)))))"
| "compile_expression (UnaryExpr sp t oper e) c =
     (case compile_expression e c of Inl x \<Rightarrow> Inl x
      | Inr c1 \<Rightarrow>
          Inr (emit (Instruction0 (case oper of Neg \<Rightarrow> NEG_I32 | NotOp \<Rightarrow> NOT)) c1))"
| "compile_expression (IntLiteral sp t v) c = Inr (emit (Instruction PUSH_I32 (scast v)) c)"
| "compile_expression (BoolLiteral sp t b) c =
     Inr (emit (Instruction PUSH_BOOL (if b then 1 else 0)) c)"
| "compile_expression (StringLiteral sp t s) c =
     (let index = length (string_constants c)
      in Inr (emit (Instruction PUSH_STR (of_nat index))
               (c\<lparr>string_constants := string_constants c @ [s]\<rparr>)))"
| "compile_expression (Identifier sp t nm m) c =
     (case get_local_index nm c of Inl e \<Rightarrow> Inl e
      | Inr index \<Rightarrow> Inr (emit (Instruction LOAD (of_nat index)) c))"
| "compile_expression (CallExpr sp t callee args) c =
     (case compile_args args c of Inl e \<Rightarrow> Inl e
      | Inr c1 \<Rightarrow>
        (case callee of
           Identifier sp' t' nm m \<Rightarrow>
             (case get_function_index (function_table c1) nm of Inl e \<Rightarrow> Inl e
              | Inr func_index \<Rightarrow> Inr (emit (Instruction CALL (of_nat func_index)) c1))
         | _ \<Rightarrow> Inl (runtime_error ''Function callee must be an identifier'')))"
| "compile_expression (BorrowExpr sp t m e) c =
     (case compile_expression e c of Inl x \<Rightarrow> Inl x
      | Inr c1 \<Rightarrow> Inr (emit (Instruction0 (if m then BORROW_MUT else BORROW)) c1))"
| "compile_args [] c = Inr c"
| "compile_args (a # as) c =
     (case compile_args as c of Inl e \<Rightarrow> Inl e | Inr c1 \<Rightarrow> compile_expression a c1)"

definition compile_let :: "string \<Rightarrow> Expr \<Rightarrow> Compiler \<Rightarrow> exn + Compiler" where
  "compile_let nm init c =
     (case compile_expression init c of Inl e \<Rightarrow> Inl e
      | Inr c1 \<Rightarrow>
        (let c2 = (if local_vars c1 nm = None
                   then c1\<lparr>local_vars := (local_vars c1)(nm \<mapsto> next_local_index c1),
                           next_local_index := next_local_index c1 + 1\<rparr>
                   else c1)
         in case get_local_index nm c2 of Inl e \<Rightarrow> Inl e
            | Inr index \<Rightarrow> Inr (emit (Instruction STORE (of_nat index)) c2)))"

text \<open>
  \<^verbatim>\<open>compile_statement\<close> with \<^verbatim>\<open>compile_if\<close>, \<^verbatim>\<open>compile_while\<close> and
  \<^verbatim>\<open>compile_block\<close> written in place.
\<close>

fun compile_statement :: "Stmt \<Rightarrow> Compiler \<Rightarrow> exn + Compiler"
  and compile_block :: "Stmt list \<Rightarrow> Compiler \<Rightarrow> exn + Compiler" where
  "compile_statement (LetStmt sp m nm ty init) c = compile_let nm init c"
| "compile_statement (IfStmt sp cond then_branch else_branch) c =
     (case compile_expression cond c of Inl e \<Rightarrow> Inl e
      | Inr c1 \<Rightarrow>
        (case emit_instruction JMP_IF_NOT 0 c1 of (else_jump, c2) \<Rightarrow>
        (case compile_statement then_branch c2 of Inl e \<Rightarrow> Inl e
         | Inr c3 \<Rightarrow>
           (case else_branch of
              None \<Rightarrow> Inr (patch_operand else_jump c3)
            | Some els \<Rightarrow>
              (case emit_instruction JMP 0 c3 of (end_jump, c4) \<Rightarrow>
               (case compile_statement els (patch_operand else_jump c4) of Inl e \<Rightarrow> Inl e
                | Inr c5 \<Rightarrow> Inr (patch_operand end_jump c5)))))))"
| "compile_statement (WhileStmt sp cond bdy) c =
     (let loop_start = length (instructions c)
      in case compile_expression cond c of Inl e \<Rightarrow> Inl e
         | Inr c1 \<Rightarrow>
           (case emit_instruction JMP_IF_NOT 0 c1 of (exit_jump, c2) \<Rightarrow>
            (case compile_statement bdy c2 of Inl e \<Rightarrow> Inl e
             | Inr c3 \<Rightarrow>
                 Inr (patch_operand exit_jump
                        (snd (emit_instruction JMP (of_nat loop_start) c3))))))"
| "compile_statement (BlockStmt sp stmts) c = compile_block stmts c"
| "compile_statement (ExprStmt sp e) c =
     (case compile_expression e c of Inl x \<Rightarrow> Inl x
      | Inr c1 \<Rightarrow> Inr (emit (Instruction0 POP) c1))"
| "compile_block [] c = Inr c"
| "compile_block (s # ss) c =
     (case compile_statement s c of Inl e \<Rightarrow> Inl e | Inr c1 \<Rightarrow> compile_block ss c1)"

text \<open>The loop \<^verbatim>\<open>local_vars[param.name] = next_local_index++\<close>.\<close>

fun add_params :: "Param list \<Rightarrow> Compiler \<Rightarrow> Compiler" where
  "add_params [] c = c"
| "add_params (p # ps) c =
     add_params ps (c\<lparr>local_vars := (local_vars c)(pname p \<mapsto> next_local_index c),
                      next_local_index := next_local_index c + 1\<rparr>)"

text \<open>The \<^verbatim>\<open>const_cast\<close> writes into the entry that \<^verbatim>\<open>get_function_index\<close> names.\<close>

definition update_function ::
  "string \<Rightarrow> (FunctionInfo \<Rightarrow> FunctionInfo) \<Rightarrow> Compiler \<Rightarrow> exn + Compiler" where
  "update_function nm f c =
     (case get_function_index (function_table c) nm of Inl e \<Rightarrow> Inl e
      | Inr i \<Rightarrow>
        (case get_function (function_table c) i of Inl e \<Rightarrow> Inl e
         | Inr info \<Rightarrow>
             Inr (c\<lparr>function_table := (function_table c)
                      \<lparr>ft_functions := (ft_functions (function_table c))[i := f info]\<rparr>\<rparr>)))"

definition compile_function :: "FunctionDecl \<Rightarrow> Compiler \<Rightarrow> exn + Compiler" where
  "compile_function func c =
     (let c0 = add_params (params func) (c\<lparr>local_vars := Map.empty, next_local_index := 0\<rparr>)
      in case compile_statement (body func) c0 of Inl e \<Rightarrow> Inl e
         | Inr c1 \<Rightarrow>
           (let c2 = (if instructions c1 = [] \<or> opcode (last (instructions c1)) \<noteq> RET_VAL
                      then emit (Instruction0 RET) c1 else c1)
            in update_function (fname func)
                 (\<lambda>info. info\<lparr>num_locals := next_local_index c2\<rparr>) c2))"

fun compile_functions :: "FunctionDecl list \<Rightarrow> Compiler \<Rightarrow> exn + Compiler" where
  "compile_functions [] c = Inr c"
| "compile_functions (func # fs) c =
     (let ep = length (instructions c)
      in case compile_function func c of Inl e \<Rightarrow> Inl e
         | Inr c1 \<Rightarrow>
           (case update_function (fname func) (\<lambda>info. info\<lparr>entry_point := ep\<rparr>) c1 of
              Inl e \<Rightarrow> Inl e
            | Inr c2 \<Rightarrow> compile_functions fs c2))"

text \<open>The first pass of \<^verbatim>\<open>Compiler::compile\<close>: every function is registered with the
  placeholder entry point 0.\<close>

definition register_functions :: "FunctionDecl list \<Rightarrow> FunctionTable" where
  "register_functions fs = foldl (\<lambda>ft func. add_function func 0 ft) FunctionTable_new fs"

definition Compiler_new :: Compiler where
  "Compiler_new = \<lparr>instructions = [], string_constants = [], local_vars = Map.empty,
                   next_local_index = 0, function_table = FunctionTable_new\<rparr>"

text \<open>\<^verbatim>\<open>Compiler::compile\<close>: the state after both passes; the method returns its
  \<^verbatim>\<open>instructions\<close>.\<close>

definition compile_state :: "Program \<Rightarrow> exn + Compiler" where
  "compile_state program =
     compile_functions (items program)
       (Compiler_new\<lparr>function_table := register_functions (items program)\<rparr>)"

definition compile :: "Program \<Rightarrow> exn + Instruction list" where
  "compile program =
     (case compile_state program of Inl e \<Rightarrow> Inl e | Inr c \<Rightarrow> Inr (instructions c))"

section \<open>Type checker (src/type_checker.cpp)\<close>

text \<open>What \<^verbatim>\<open>operator<<\<close> prints for a \<^verbatim>\<open>size_t\<close>: the decimal digits.\<close>

definition digit_char :: "nat \<Rightarrow> char" where
  "digit_char d = char_of (48 + d)"

fun to_string :: "nat \<Rightarrow> string" where
  "to_string n = (if n < 10 then [digit_char n] else to_string (n div 10) @ [digit_char (n mod 10)])"

declare to_string.simps [simp del]

datatype VariableInfo = VariableInfo (vi_type: Type) (vi_is_mut: bool)

record TypeChecker =
  scopes :: "(string \<rightharpoonup> VariableInfo) list"
  errors :: "string list"

text \<open>A default-constructed \<^verbatim>\<open>TypeChecker\<close>. The back of the vector \<^verbatim>\<open>scopes_\<close> is
  the last element of \<open>scopes\<close>.\<close>

definition TypeChecker_new :: TypeChecker where
  "TypeChecker_new = \<lparr>scopes = [], errors = []\<rparr>"

definition error :: "string \<Rightarrow> Span \<Rightarrow> TypeChecker \<Rightarrow> TypeChecker" where
  "error message sp tc =
     tc\<lparr>errors := errors tc @
          [''Type error at '' @ to_string (span_start sp) @ '':'' @ to_string (span_end sp)
             @ '': '' @ message]\<rparr>"

definition has_errors :: "TypeChecker \<Rightarrow> bool" where
  "has_errors tc = (errors tc \<noteq> [])"

text \<open>
  The checker never calls \<^verbatim>\<open>Type::clone\<close> on a stored type. It copies by hand,
  \<^verbatim>\<open>
  auto t = std::make_unique<Type>(src->kind, span);
  if (src->base_type)
      t->base_type = std::make_unique<Type>(src->base_type->kind, src->base_type->span);
  \<close>
  which keeps the kind of the type and the kind of its base and leaves the base of the
  base null. \<open>copy_type src sp\<close> is that copy, \<open>sp\<close> the span given to the outer node.
\<close>

definition copy_type :: "Type \<Rightarrow> Span \<Rightarrow> Type" where
  "copy_type src sp =
     Type (kind src)
       (case base_type src of None \<Rightarrow> None | Some b \<Rightarrow> Some (Type (kind b) None (tspan b))) sp"

definition enter_scope :: "TypeChecker \<Rightarrow> TypeChecker" where
  "enter_scope tc = tc\<lparr>scopes := scopes tc @ [Map.empty]\<rparr>"

definition exit_scope :: "TypeChecker \<Rightarrow> TypeChecker" where
  "exit_scope tc = tc\<lparr>scopes := butlast (scopes tc)\<rparr>"

definition declare_variable :: "string \<Rightarrow> Type \<Rightarrow> bool \<Rightarrow> TypeChecker \<Rightarrow> bool \<times> TypeChecker" where
  "declare_variable nm ty m tc =
     (let ss = (if scopes tc = [] then [Map.empty] else scopes tc);
          current_scope = last ss
      in if current_scope nm \<noteq> None then (False, tc\<lparr>scopes := ss\<rparr>)
         else (True, tc\<lparr>scopes := butlast ss @ [current_scope(nm \<mapsto> VariableInfo ty m)]\<rparr>))"

text \<open>The loop of \<^verbatim>\<open>lookup_variable\<close> from \<^verbatim>\<open>scopes_.rbegin()\<close>, on the reversed list.\<close>

fun lookup_in :: "string \<Rightarrow> (string \<rightharpoonup> VariableInfo) list \<Rightarrow> VariableInfo option" where
  "lookup_in nm [] = None"
| "lookup_in nm (s # ss) =
     (case s nm of
        Some found \<Rightarrow>
          Some (VariableInfo (copy_type (vi_type found) (tspan (vi_type found))) (vi_is_mut found))
      | None \<Rightarrow> lookup_in nm ss)"

definition lookup_variable :: "string \<Rightarrow> TypeChecker \<Rightarrow> VariableInfo option" where
  "lookup_variable nm tc = lookup_in nm (rev (scopes tc))"

text \<open>
  \<^verbatim>\<open>is_assignable\<close> and \<^verbatim>\<open>is_compatible\<close> dereference \<^verbatim>\<open>base_type\<close> without a test.
  On a null pointer the behaviour of the C++ is undefined; the model returns \<open>None\<close> there.
\<close>

fun is_assignable :: "Type \<Rightarrow> Type \<Rightarrow> bool option" where
  "is_assignable (Type tk tb tsp) (Type sk sb ssp) =
     (if tk = sk then
        (if tk = Ref \<or> tk = MutRef then
           (case tb of None \<Rightarrow> None
            | Some tb' \<Rightarrow> (case sb of None \<Rightarrow> None | Some sb' \<Rightarrow> is_assignable tb' sb'))
         else Some True)
      else if tk = Ref \<and> sk = MutRef then
        (case tb of None \<Rightarrow> None
         | Some tb' \<Rightarrow> (case sb of None \<Rightarrow> None | Some sb' \<Rightarrow> is_assignable tb' sb'))
      else Some False)"

fun is_compatible :: "Type \<Rightarrow> Type \<Rightarrow> bool option" where
  "is_compatible (Type lk lb lsp) (Type rk rb rsp) =
     (if lk = rk then
        (if lk = Ref \<or> lk = MutRef then
           (case lb of None \<Rightarrow> None
            | Some lb' \<Rightarrow> (case rb of None \<Rightarrow> None | Some rb' \<Rightarrow> is_compatible lb' rb'))
         else Some True)
      else if (lk = Ref \<and> rk = MutRef) \<or> (lk = MutRef \<and> rk = Ref) then
        (case lb of None \<Rightarrow> None
         | Some lb' \<Rightarrow> (case rb of None \<Rightarrow> None | Some rb' \<Rightarrow> is_compatible lb' rb'))
      else Some False)"

text \<open>The search through \<^verbatim>\<open>program_->items\<close> for a function of a given name.\<close>

definition find_function :: "FunctionDecl list \<Rightarrow> string \<Rightarrow> FunctionDecl option" where
  "find_function fs nm = find (\<lambda>func. fname func = nm) fs"

text \<open>
  The marking loop of the \<^verbatim>\<open>BorrowExpr\<close> case, over every scope of the stack: where the
  scope holds the name, its stored type becomes a \<^verbatim>\<open>MutRef\<close> around a hand copy of the
  type stored before, with the span of the borrow expression.
\<close>

definition mark_scope ::
  "string \<Rightarrow> Span \<Rightarrow> (string \<rightharpoonup> VariableInfo) \<Rightarrow> (string \<rightharpoonup> VariableInfo)" where
  "mark_scope nm sp scope =
     (case scope nm of
        None \<Rightarrow> scope
      | Some it \<Rightarrow>
          scope(nm \<mapsto> VariableInfo
                        (Type MutRef (Some (copy_type (vi_type it) (tspan (vi_type it)))) sp)
                        (vi_is_mut it)))"

definition mark_mutably_borrowed :: "string \<Rightarrow> Span \<Rightarrow> TypeChecker \<Rightarrow> TypeChecker" where
  "mark_mutably_borrowed nm sp tc = tc\<lparr>scopes := map (mark_scope nm sp) (scopes tc)\<rparr>"

fun is_arith :: "BinaryOp \<Rightarrow> bool" where
  "is_arith oper = (oper = Add \<or> oper = Sub \<or> oper = Mul \<or> oper = Div)"

fun is_comparison :: "BinaryOp \<Rightarrow> bool" where
  "is_comparison oper =
     (oper = Eq \<or> oper = Ne \<or> oper = Lt \<or> oper = Gt \<or> oper = Le \<or> oper = Ge)"

text \<open>
  The checker's functions return \<open>None\<close> where the C++ dereferences a null pointer, and
  otherwise the \<^verbatim>\<open>bool\<close> of the source, the node with the slots it wrote, and the
  checker's state. \<open>prog\<close> is \<^verbatim>\<open>program_->items\<close>. \<open>check_args\<close> is the loop over
  \<^verbatim>\<open>call->args\<close> of the \<^verbatim>\<open>CallExpr\<close> case, from index \<open>i\<close>.
\<close>

fun check_expression ::
    "FunctionDecl list \<Rightarrow> Expr \<Rightarrow> TypeChecker \<Rightarrow> (bool \<times> Expr \<times> TypeChecker) option"
  and check_args ::
    "FunctionDecl list \<Rightarrow> Span \<Rightarrow> string \<Rightarrow> Param list \<Rightarrow> nat \<Rightarrow> Expr list \<Rightarrow> TypeChecker
       \<Rightarrow> (bool \<times> Expr list \<times> TypeChecker) option" where
  "check_expression prog (IntLiteral sp t v) tc =
     Some (True, IntLiteral sp (Some (Type I32 None sp)) v, tc)"
| "check_expression prog (BoolLiteral sp t b) tc =
     Some (True, BoolLiteral sp (Some (Type Bool None sp)) b, tc)"
| "check_expression prog (StringLiteral sp t s) tc =
     Some (True, StringLiteral sp (Some (Type Str None sp)) s, tc)"
| "check_expression prog (Identifier sp t nm m) tc =
     (if find_function prog nm \<noteq> None then Some (True, Identifier sp t nm m, tc)
      else
        (case lookup_variable nm tc of
           None \<Rightarrow> Some (False, Identifier sp t nm m, error (''Undefined variable: '' @ nm) sp tc)
         | Some var_info \<Rightarrow>
             Some (True, Identifier sp (Some (copy_type (vi_type var_info) sp)) nm
                           (vi_is_mut var_info), tc)))"
| "check_expression prog (BinaryExpr sp t oper l r) tc =
     (if oper = Assignment then
        (case l of
           Identifier lsp lt nm lm \<Rightarrow>
             (case lookup_variable nm tc of
                None \<Rightarrow>
                  Some (False, BinaryExpr sp t oper l r,
                        error (''Undefined variable: '' @ nm) sp tc)
              | Some var_info \<Rightarrow>
                  if kind (vi_type var_info) = MutRef then
                    Some (False, BinaryExpr sp t oper l r,
                          error (''Cannot use variable while mutably borrowed: '' @ nm) sp tc)
                  else if \<not> vi_is_mut var_info then
                    Some (False, BinaryExpr sp t oper l r,
                          error (''Cannot assign to immutable variable: '' @ nm) sp tc)
                  else
                    (case check_expression prog r tc of None \<Rightarrow> None
                     | Some (ok, r', tc1) \<Rightarrow>
                         if \<not> ok then Some (False, BinaryExpr sp t oper l r', tc1)
                         else
                           (case expr_type r' of None \<Rightarrow> None
                            | Some rt \<Rightarrow>
                              (case is_assignable (vi_type var_info) rt of None \<Rightarrow> None
                               | Some a \<Rightarrow>
                                   if \<not> a then
                                     Some (False, BinaryExpr sp t oper l r',
                                           error ''Type mismatch in assignment'' sp tc1)
                                   else
                                     Some (True, BinaryExpr sp (Some (clone rt)) oper l r',
                                           tc1)))))
         | _ \<Rightarrow>
             Some (False, BinaryExpr sp t oper l r,
                   error ''Left side of assignment must be an identifier'' sp tc))
      else
        (case check_expression prog l tc of None \<Rightarrow> None
         | Some (okl, l', tc1) \<Rightarrow>
             if \<not> okl then Some (False, BinaryExpr sp t oper l' r, tc1)
             else
               (case check_expression prog r tc1 of None \<Rightarrow> None
                | Some (okr, r', tc2) \<Rightarrow>
                    if \<not> okr then Some (False, BinaryExpr sp t oper l' r', tc2)
                    else
                      (case (expr_type l', expr_type r') of
                         (Some lt, Some rt) \<Rightarrow>
                           if is_arith oper then
                             (if kind lt \<noteq> I32 \<or> kind rt \<noteq> I32 then
                                Some (False, BinaryExpr sp t oper l' r',
                                      error ''Arithmetic operations require integer operands''
                                        sp tc2)
                              else
                                Some (True, BinaryExpr sp (Some (Type I32 None sp)) oper l' r',
                                      tc2))
                           else if is_comparison oper then
                             (case is_compatible lt rt of None \<Rightarrow> None
                              | Some a \<Rightarrow>
                                  if \<not> a then
                                    Some (False, BinaryExpr sp t oper l' r',
                                          error ''Incompatible types in comparison'' sp tc2)
                                  else
                                    Some (True,
                                          BinaryExpr sp (Some (Type Bool None sp)) oper l' r',
                                          tc2))
                           else
                             (if kind lt \<noteq> Bool \<or> kind rt \<noteq> Bool then
                                Some (False, BinaryExpr sp t oper l' r',
                                      error ''Logical operations require boolean operands''
                                        sp tc2)
                              else
                                Some (True, BinaryExpr sp (Some (Type Bool None sp)) oper l' r',
                                      tc2))
                       | _ \<Rightarrow>
                           Some (False, BinaryExpr sp t oper l' r',
                                 error ''Invalid operands in binary expression'' sp tc2)))))"
| "check_expression prog (UnaryExpr sp t oper e) tc =
     (case check_expression prog e tc of None \<Rightarrow> None
      | Some (ok, e', tc1) \<Rightarrow>
          if \<not> ok then Some (False, UnaryExpr sp t oper e', tc1)
          else
            (case expr_type e' of
               None \<Rightarrow>
                 Some (False, UnaryExpr sp t oper e',
                       error ''Invalid operand in unary expression'' sp tc1)
             | Some et \<Rightarrow>
                 (case oper of
                    Neg \<Rightarrow>
                      if kind et \<noteq> I32 then
                        Some (False, UnaryExpr sp t oper e',
                              error ''Negation requires integer operand'' sp tc1)
                      else Some (True, UnaryExpr sp (Some (Type I32 None sp)) oper e', tc1)
                  | NotOp \<Rightarrow>
                      if kind et \<noteq> Bool then
                        Some (False, UnaryExpr sp t oper e',
                              error ''Logical not requires boolean operand'' sp tc1)
                      else Some (True, UnaryExpr sp (Some (Type Bool None sp)) oper e', tc1))))"
| "check_expression prog (BorrowExpr sp t m e) tc =
     (case check_expression prog e tc of None \<Rightarrow> None
      | Some (ok, e', tc1) \<Rightarrow>
          if \<not> ok then Some (False, BorrowExpr sp t m e', tc1)
          else
            (case expr_type e' of
               None \<Rightarrow>
                 Some (False, BorrowExpr sp t m e',
                       error ''Invalid operand in borrow expression'' sp tc1)
             | Some et \<Rightarrow>
                 (let result =
                    BorrowExpr sp (Some (Type (if m then MutRef else Ref)
                                           (Some (copy_type et (tspan et))) sp)) m e'
                  in case (m, e') of
                       (True, Identifier isp it nm is_mut_binding) \<Rightarrow>
                         if \<not> is_mut_binding then
                           Some (False, BorrowExpr sp t m e',
                                 error ''Cannot borrow immutable variable as mutable'' sp tc1)
                         else
                           (case lookup_variable nm tc1 of
                              None \<Rightarrow> Some (True, result, tc1)
                            | Some var_info \<Rightarrow>
                                if kind (vi_type var_info) = MutRef then
                                  Some (False, BorrowExpr sp t m e',
                                        error (''Variable already mutably borrowed: '' @ nm)
                                          sp tc1)
                                else Some (True, result, mark_mutably_borrowed nm sp tc1))
                     | _ \<Rightarrow> Some (True, result, tc1))))"
| "check_expression prog (CallExpr sp t callee args) tc =
     (case check_expression prog callee tc of None \<Rightarrow> None
      | Some (ok, callee', tc1) \<Rightarrow>
          if \<not> ok then Some (False, CallExpr sp t callee' args, tc1)
          else
            (case callee' of
               Identifier csp ct nm cm \<Rightarrow>
                 (case find_function prog nm of
                    None \<Rightarrow>
                      Some (False, CallExpr sp t callee' args,
                            error (''Undefined function: '' @ nm) sp tc1)
                  | Some func_decl \<Rightarrow>
                      if length args \<noteq> length (params func_decl) then
                        Some (False, CallExpr sp t callee' args,
                              error (''Wrong number of arguments for function '' @ nm) sp tc1)
                      else
                        (case check_args prog sp nm (params func_decl) 0 args tc1 of
                           None \<Rightarrow> None
                         | Some (oka, args', tc2) \<Rightarrow>
                             if \<not> oka then Some (False, CallExpr sp t callee' args', tc2)
                             else
                               Some (True,
                                     CallExpr sp (Some (copy_type (return_type func_decl) sp))
                                       callee' args',
                                     tc2)))
             | _ \<Rightarrow>
                 Some (False, CallExpr sp t callee' args,
                       error ''Function call requires a function name'' sp tc1)))"
| "check_args prog sp nm ps i [] tc = Some (True, [], tc)"
| "check_args prog sp nm ps i (a # as) tc =
     (case check_expression prog a tc of None \<Rightarrow> None
      | Some (ok, a', tc1) \<Rightarrow>
          if \<not> ok then Some (False, a' # as, tc1)
          else
            (case expr_type a' of
               None \<Rightarrow>
                 Some (False, a' # as, error ''Invalid argument in function call'' sp tc1)
             | Some aty \<Rightarrow>
                 (case is_assignable (ptype (ps ! i)) aty of None \<Rightarrow> None
                  | Some ass \<Rightarrow>
                      if \<not> ass then
                        Some (False, a' # as,
                              error (''Type mismatch in argument '' @ to_string (i + 1)
                                       @ '' of function '' @ nm) (expr_span a') tc1)
                      else
                        (case check_args prog sp nm ps (i + 1) as tc1 of None \<Rightarrow> None
                         | Some (okr, as', tc2) \<Rightarrow> Some (okr, a' # as', tc2)))))"

text \<open>\<open>check_block\<close> is the loop of the \<^verbatim>\<open>BlockStmt\<close> case; it leaves the scope itself on
  the failing path, as the source does.\<close>

fun check_statement ::
    "FunctionDecl list \<Rightarrow> Stmt \<Rightarrow> TypeChecker \<Rightarrow> (bool \<times> Stmt \<times> TypeChecker) option"
  and check_block ::
    "FunctionDecl list \<Rightarrow> Stmt list \<Rightarrow> TypeChecker \<Rightarrow> (bool \<times> Stmt list \<times> TypeChecker) option"
  where
  "check_statement prog (LetStmt sp m nm ty init) tc =
     (case check_expression prog init tc of None \<Rightarrow> None
      | Some (ok, init', tc1) \<Rightarrow>
          if \<not> ok then Some (False, LetStmt sp m nm ty init', tc1)
          else
            (case expr_type init' of None \<Rightarrow> None
             | Some it \<Rightarrow>
               (case is_assignable ty it of None \<Rightarrow> None
                | Some a \<Rightarrow>
                    if \<not> a then
                      Some (False, LetStmt sp m nm ty init',
                            error ''Type mismatch in let binding'' sp tc1)
                    else
                      (case declare_variable nm (copy_type ty (tspan ty)) m tc1 of
                         (declared, tc2) \<Rightarrow>
                           if \<not> declared then
                             Some (False, LetStmt sp m nm ty init',
                                   error (''Duplicate variable name: '' @ nm) sp tc2)
                           else Some (True, LetStmt sp m nm ty init', tc2)))))"
| "check_statement prog (ExprStmt sp e) tc =
     (case check_expression prog e tc of None \<Rightarrow> None
      | Some (ok, e', tc1) \<Rightarrow> Some (ok, ExprStmt sp e', tc1))"
| "check_statement prog (IfStmt sp cond then_branch else_branch) tc =
     (case check_expression prog cond tc of None \<Rightarrow> None
      | Some (ok, cond', tc1) \<Rightarrow>
          if \<not> ok then Some (False, IfStmt sp cond' then_branch else_branch, tc1)
          else if (case expr_type cond' of None \<Rightarrow> True | Some ct \<Rightarrow> kind ct \<noteq> Bool) then
            Some (False, IfStmt sp cond' then_branch else_branch,
                  error ''If condition must be boolean'' (expr_span cond') tc1)
          else
            (case check_statement prog then_branch (enter_scope tc1) of None \<Rightarrow> None
             | Some (then_success, then', tc2) \<Rightarrow>
               (case else_branch of
                  None \<Rightarrow> Some (then_success, IfStmt sp cond' then' None, exit_scope tc2)
                | Some els \<Rightarrow>
                    (case check_statement prog els (enter_scope (exit_scope tc2)) of
                       None \<Rightarrow> None
                     | Some (else_success, els', tc3) \<Rightarrow>
                         Some (then_success \<and> else_success,
                               IfStmt sp cond' then' (Some els'), exit_scope tc3)))))"
| "check_statement prog (WhileStmt sp cond bdy) tc =
     (case check_expression prog cond tc of None \<Rightarrow> None
      | Some (ok, cond', tc1) \<Rightarrow>
          if \<not> ok then Some (False, WhileStmt sp cond' bdy, tc1)
          else if (case expr_type cond' of None \<Rightarrow> True | Some ct \<Rightarrow> kind ct \<noteq> Bool) then
            Some (False, WhileStmt sp cond' bdy,
                  error ''While condition must be boolean'' (expr_span cond') tc1)
          else
            (case check_statement prog bdy (enter_scope tc1) of None \<Rightarrow> None
             | Some (success, bdy', tc2) \<Rightarrow>
                 Some (success, WhileStmt sp cond' bdy', exit_scope tc2)))"
| "check_statement prog (BlockStmt sp stmts) tc =
     (case check_block prog stmts (enter_scope tc) of None \<Rightarrow> None
      | Some (ok, stmts', tc1) \<Rightarrow> Some (ok, BlockStmt sp stmts', tc1))"
| "check_block prog [] tc = Some (True, [], exit_scope tc)"
| "check_block prog (s # ss) tc =
     (case check_statement prog s tc of None \<Rightarrow> None
      | Some (ok, s', tc1) \<Rightarrow>
          if \<not> ok then Some (False, s' # ss, exit_scope tc1)
          else
            (case check_block prog ss tc1 of None \<Rightarrow> None
             | Some (okr, ss', tc2) \<Rightarrow> Some (okr, s' # ss', tc2)))"

text \<open>The parameter loop of \<^verbatim>\<open>check_function\<close>; on a duplicate it returns the
  parameter whose declaration failed.\<close>

fun declare_params :: "Param list \<Rightarrow> TypeChecker \<Rightarrow> Param option \<times> TypeChecker" where
  "declare_params [] tc = (None, tc)"
| "declare_params (p # ps) tc =
     (case declare_variable (pname p) (copy_type (ptype p) (tspan (ptype p)))
             (param_is_mut p) tc of
        (declared, tc1) \<Rightarrow> if \<not> declared then (Some p, tc1) else declare_params ps tc1)"

text \<open>
  The return check of \<^verbatim>\<open>check_function\<close>: when the body is a block whose last statement
  is an expression statement, that expression is checked a second time, in the scopes that
  are left after the body's block has been left.
\<close>

definition check_return ::
  "FunctionDecl list \<Rightarrow> Type \<Rightarrow> bool \<Rightarrow> Stmt \<Rightarrow> TypeChecker
     \<Rightarrow> (bool \<times> Stmt \<times> TypeChecker) option" where
  "check_return prog ret success bdy tc =
     (case bdy of
        BlockStmt bsp stmts \<Rightarrow>
          (if stmts = [] then Some (success, bdy, tc)
           else
             (case last stmts of
                ExprStmt esp e \<Rightarrow>
                  (case check_expression prog e tc of None \<Rightarrow> None
                   | Some (ok, e', tc1) \<Rightarrow>
                       if \<not> ok then
                         Some (False, BlockStmt bsp (butlast stmts @ [ExprStmt esp e']), tc1)
                       else
                         (case expr_type e' of None \<Rightarrow> None
                          | Some et \<Rightarrow>
                            (case is_assignable ret et of None \<Rightarrow> None
                             | Some a \<Rightarrow>
                                 if \<not> a then
                                   Some (False, BlockStmt bsp (butlast stmts @ [ExprStmt esp e']),
                                         error ''Function return type mismatch'' esp tc1)
                                 else
                                   Some (success,
                                         BlockStmt bsp (butlast stmts @ [ExprStmt esp e']),
                                         tc1))))
              | _ \<Rightarrow> Some (success, bdy, tc)))
      | _ \<Rightarrow> Some (success, bdy, tc))"

definition check_function ::
  "FunctionDecl list \<Rightarrow> FunctionDecl \<Rightarrow> TypeChecker
     \<Rightarrow> (bool \<times> FunctionDecl \<times> TypeChecker) option" where
  "check_function prog func tc =
     (case declare_params (params func) (enter_scope tc) of
        (Some p, tc1) \<Rightarrow>
          Some (False, func, error (''Duplicate parameter name: '' @ pname p) (pspan p) tc1)
      | (None, tc1) \<Rightarrow>
          (case check_statement prog (body func) tc1 of None \<Rightarrow> None
           | Some (success, bdy', tc2) \<Rightarrow>
             (case check_return prog (return_type func) success bdy' tc2 of None \<Rightarrow> None
              | Some (success', bdy'', tc3) \<Rightarrow>
                  Some (success',
                        FunctionDecl (fspan func) (fname func) (params func) (return_type func)
                          bdy'',
                        exit_scope tc3))))"

text \<open>The loop of \<^verbatim>\<open>check_program\<close> over \<^verbatim>\<open>program.items\<close>, with its
  \<^verbatim>\<open>return false\<close>.\<close>

fun check_functions ::
  "FunctionDecl list \<Rightarrow> FunctionDecl list \<Rightarrow> TypeChecker
     \<Rightarrow> (bool \<times> FunctionDecl list \<times> TypeChecker) option" where
  "check_functions prog [] tc = Some (True, [], tc)"
| "check_functions prog (func # fs) tc =
     (case check_function prog func tc of None \<Rightarrow> None
      | Some (ok, func', tc1) \<Rightarrow>
          if \<not> ok then Some (False, func' # fs, tc1)
          else
            (case check_functions prog fs tc1 of None \<Rightarrow> None
             | Some (okr, fs', tc2) \<Rightarrow> Some (okr, func' # fs', tc2)))"

definition check_program ::
  "Program \<Rightarrow> TypeChecker \<Rightarrow> (bool \<times> Program \<times> TypeChecker) option" where
  "check_program program tc =
     (case check_functions (items program) (items program) tc of None \<Rightarrow> None
      | Some (ok, fs', tc1) \<Rightarrow>
          if \<not> ok then Some (False, Program (prog_span program) fs', tc1)
          else Some (\<not> has_errors tc1, Program (prog_span program) fs', tc1))"

section \<open>Parser (src/parser/parser.cpp)\<close>

text \<open>
  The parser's state is the immutable \<^verbatim>\<open>source\<close> and the cursor \<^verbatim>\<open>pos\<close>. The model
  keeps the cursor together with the unread rest of the source, \<open>drop pos source\<close>, so
  that \<^verbatim>\<open>source[pos]\<close> is the head of the rest and \<^verbatim>\<open>pos++\<close> drops it. Every parsing
  function takes the cursor and returns the new one with its value. A thrown exception is
  \<open>Some (Inl e)\<close>. The recursive functions carry a fuel argument, and \<open>None\<close> says that
  the fuel ran out, which no run of the C++ corresponds to.
\<close>

datatype Cursor = Cursor (pos: nat) (rest: string)

definition advance :: "nat \<Rightarrow> Cursor \<Rightarrow> Cursor" where
  "advance n c = Cursor (pos c + n) (drop n (rest c))"

type_synonym 'a parse_result = "(exn + 'a \<times> Cursor) option"

definition bind_parse ::
  "'a parse_result \<Rightarrow> ('a \<Rightarrow> Cursor \<Rightarrow> 'b parse_result) \<Rightarrow> 'b parse_result" where
  "bind_parse r f =
     (case r of None \<Rightarrow> None | Some (Inl e) \<Rightarrow> Some (Inl e) | Some (Inr (v, c)) \<Rightarrow> f v c)"

definition parse_return :: "'a \<Rightarrow> Cursor \<Rightarrow> 'a parse_result" where
  "parse_return v c = Some (Inr (v, c))"

definition parse_throw :: "exn \<Rightarrow> 'a parse_result" where
  "parse_throw e = Some (Inl e)"

text \<open>\<^verbatim>\<open>Parser::error\<close>.\<close>

definition parse_error :: "Cursor \<Rightarrow> string \<Rightarrow> 'a parse_result" where
  "parse_error c message =
     parse_throw
       (runtime_error (''Parse error at position '' @ to_string (pos c) @ '': '' @ message))"

text \<open>\<^verbatim>\<open>make_span(start)\<close>.\<close>

definition make_span :: "Cursor \<Rightarrow> Cursor \<Rightarrow> Span" where
  "make_span start c = Span (pos start) (pos c)"

text \<open>\<^verbatim>\<open>source[pos]\<close>; at \<^verbatim>\<open>pos == source.length()\<close> a \<^verbatim>\<open>std::string\<close> yields the
  null character.\<close>

definition char_at :: "Cursor \<Rightarrow> char" where
  "char_at c = (case rest c of [] \<Rightarrow> CHR 0x00 | x # xs \<Rightarrow> x)"

text \<open>The \<^verbatim>\<open><cctype>\<close> tests in the C locale.\<close>

definition isspace :: "char \<Rightarrow> bool" where
  "isspace c = (let k = (of_char c :: nat) in k = 32 \<or> (9 \<le> k \<and> k \<le> 13))"

definition isdigit :: "char \<Rightarrow> bool" where
  "isdigit c = (let k = (of_char c :: nat) in 48 \<le> k \<and> k \<le> 57)"

definition isalpha :: "char \<Rightarrow> bool" where
  "isalpha c = (let k = (of_char c :: nat) in (65 \<le> k \<and> k \<le> 90) \<or> (97 \<le> k \<and> k \<le> 122))"

definition isalnum :: "char \<Rightarrow> bool" where
  "isalnum c = (isalpha c \<or> isdigit c)"

text \<open>\<^verbatim>\<open>source.compare(pos, expected.length(), expected) == 0\<close>.\<close>

definition peek :: "Cursor \<Rightarrow> string \<Rightarrow> bool" where
  "peek c expected = (take (length expected) (rest c) = expected)"

definition match :: "Cursor \<Rightarrow> string \<Rightarrow> bool \<times> Cursor" where
  "match c expected =
     (if peek c expected then (True, advance (length expected) c) else (False, c))"

definition expect :: "Cursor \<Rightarrow> string \<Rightarrow> unit parse_result" where
  "expect c expected =
     (case match c expected of
        (True, c1) \<Rightarrow> parse_return () c1
      | (False, c1) \<Rightarrow> parse_error c1 (''Expected '' @ [CHR 0x27] @ expected @ [CHR 0x27]))"

definition at_end :: "Cursor \<Rightarrow> bool" where
  "at_end c = (rest c = [])"

text \<open>The inner loop of \<^verbatim>\<open>skip_whitespace\<close>, which runs to the end of a line comment.\<close>

definition skip_comment :: "Cursor \<Rightarrow> Cursor" where
  "skip_comment c =
     advance (length (takeWhile (\<lambda>x. x \<noteq> CHR 0x0A \<and> x \<noteq> CHR 0x0D) (rest c))) c"

function skip_whitespace :: "Cursor \<Rightarrow> Cursor" where
  "skip_whitespace (Cursor p []) = Cursor p []"
| "skip_whitespace (Cursor p (x # xs)) =
     (if isspace x \<or> x = CHR 0x0A \<or> x = CHR 0x0D then skip_whitespace (Cursor (p + 1) xs)
      else if xs \<noteq> [] \<and> x = CHR ''/'' \<and> hd xs = CHR ''/''
      then skip_whitespace (skip_comment (Cursor (p + 2) (tl xs)))
      else Cursor p (x # xs))"
  by pat_completeness auto
termination
  by (relation "measure (\<lambda>c. length (rest c))") (auto simp: skip_comment_def advance_def)

definition is_ident_char :: "char \<Rightarrow> bool" where
  "is_ident_char c = (isalnum c \<or> c = CHR ''_'')"

definition consume_identifier :: "Cursor \<Rightarrow> string parse_result" where
  "consume_identifier c =
     (if \<not> isalpha (char_at c) \<and> char_at c \<noteq> CHR ''_''
      then parse_error c ''Expected identifier''
      else (let name = takeWhile is_ident_char (rest c)
            in parse_return name (advance (length name) c)))"

text \<open>\<^verbatim>\<open>std::stoi\<close> on a string of digits: the decimal value, or
  \<^verbatim>\<open>std::out_of_range\<close> when it does not fit an \<^verbatim>\<open>int\<close>.\<close>

definition decimal_value :: "string \<Rightarrow> int" where
  "decimal_value ds = foldl (\<lambda>acc c. 10 * acc + (of_char c - 48)) 0 ds"

definition consume_integer :: "Cursor \<Rightarrow> (32 word) parse_result" where
  "consume_integer c =
     (let ds = takeWhile isdigit (rest c)
      in if decimal_value ds > 2147483647 then parse_throw (out_of_range ''stoi'')
         else parse_return (of_int (decimal_value ds)) (advance (length ds) c))"

text \<open>The loop of \<^verbatim>\<open>consume_string\<close>, entered behind the opening quote with an empty
  \<open>acc\<close>: it returns the characters passed over and the cursor at the closing quote or at
  the end of the source. A backslash takes the character behind it along.\<close>

function string_end :: "string \<Rightarrow> Cursor \<Rightarrow> (string \<times> Cursor) parse_result" where
  "string_end acc (Cursor p []) = parse_return (acc, Cursor p []) (Cursor p [])"
| "string_end acc (Cursor p [x]) =
     (if x = CHR 0x22 then parse_return (acc, Cursor p [x]) (Cursor p [x])
      else if x = CHR 0x5C then parse_error (Cursor (p + 1) []) ''Unterminated string''
      else string_end (acc @ [x]) (Cursor (p + 1) []))"
| "string_end acc (Cursor p (x # y # ys)) =
     (if x = CHR 0x22 then parse_return (acc, Cursor p (x # y # ys)) (Cursor p (x # y # ys))
      else if x = CHR 0x5C then string_end (acc @ [x, y]) (Cursor (p + 2) ys)
      else string_end (acc @ [x]) (Cursor (p + 1) (y # ys)))"
  by pat_completeness auto
termination
  by (relation "measure (\<lambda>(acc, c). length (rest c))") auto

definition consume_string :: "Cursor \<Rightarrow> string parse_result" where
  "consume_string c =
     (if char_at c \<noteq> CHR 0x22 then parse_error c ''Expected string''
      else
        bind_parse (string_end [] (advance 1 c))
          (\<lambda>(v, c1) _.
             if at_end c1 then parse_error c1 ''Unterminated string''
             else parse_return v (advance 1 c1)))"

fun parse_type :: "nat \<Rightarrow> Cursor \<Rightarrow> Type parse_result" where
  "parse_type 0 start = None"
| "parse_type (Suc n) start =
     (case match start ''&'' of
        (True, c) \<Rightarrow>
          (case match c ''mut'' of
             (is_mut, c1) \<Rightarrow>
               bind_parse (parse_type n (if is_mut then skip_whitespace c1 else c1))
                 (\<lambda>inner c2.
                    parse_return (Type (if is_mut then MutRef else Ref) (Some inner)
                                    (make_span start c2)) c2))
      | (False, c) \<Rightarrow>
          (case match c ''i32'' of
             (True, c1) \<Rightarrow> parse_return (Type I32 None (make_span start c1)) c1
           | (False, c1) \<Rightarrow>
               (case match c1 ''bool'' of
                  (True, c2) \<Rightarrow> parse_return (Type Bool None (make_span start c2)) c2
                | (False, c2) \<Rightarrow>
                    (case match c2 ''str'' of
                       (True, c3) \<Rightarrow> parse_return (Type Str None (make_span start c3)) c3
                     | (False, c3) \<Rightarrow> parse_error c3 ''Expected type''))))"

text \<open>
  The expression parsers call each other in a cycle through \<^verbatim>\<open>parse_expr\<close>. In the
  model each takes \<open>expr_rec\<close>, the \<^verbatim>\<open>parse_expr\<close> it calls, as an argument, and
  \<open>parse_expr\<close> closes the cycle at the end. Each loop of the source is a function of its
  own on the fuel.

  In \<^verbatim>\<open>make_unique<IntLiteral>(make_span(start), consume_integer())\<close> and its two
  siblings C++ leaves the order of the two arguments unspecified. The model evaluates
  \<^verbatim>\<open>make_span\<close> first, so the span of such a node ends where the token starts.
\<close>

type_synonym expr_parser = "Cursor \<Rightarrow> Expr parse_result"

definition parse_primary :: "expr_parser \<Rightarrow> Cursor \<Rightarrow> Expr parse_result" where
  "parse_primary expr_rec start =
     (let c = skip_whitespace start
      in if isdigit (char_at c) then
           bind_parse (consume_integer c)
             (\<lambda>v c1. parse_return (IntLiteral (make_span start c) None v) c1)
         else
           (case match c ''true'' of
              (True, c1) \<Rightarrow> parse_return (BoolLiteral (make_span start c1) None True) c1
            | (False, _) \<Rightarrow>
           (case match c ''false'' of
              (True, c1) \<Rightarrow> parse_return (BoolLiteral (make_span start c1) None False) c1
            | (False, _) \<Rightarrow>
                if char_at c = CHR 0x22 then
                  bind_parse (consume_string c)
                    (\<lambda>v c1. parse_return (StringLiteral (make_span start c) None v) c1)
                else if isalpha (char_at c) \<or> char_at c = CHR ''_'' then
                  bind_parse (consume_identifier c)
                    (\<lambda>v c1. parse_return (Identifier (make_span start c) None v False) c1)
                else
                  (case match c ''('' of
                     (True, c1) \<Rightarrow>
                       bind_parse (expr_rec c1)
                         (\<lambda>e c2. bind_parse (expect c2 '')'') (\<lambda>_ c3. parse_return e c3))
                   | (False, _) \<Rightarrow> parse_error c ''Expected expression''))))"

text \<open>The \<^verbatim>\<open>do \<dots> while (match(","))\<close> of \<^verbatim>\<open>parse_call\<close>.\<close>

fun parse_args :: "nat \<Rightarrow> expr_parser \<Rightarrow> Expr list \<Rightarrow> Cursor \<Rightarrow> (Expr list) parse_result" where
  "parse_args 0 expr_rec args c = None"
| "parse_args (Suc n) expr_rec args c =
     bind_parse (expr_rec c)
       (\<lambda>a c1. let c2 = skip_whitespace c1
                in case match c2 '','' of
                     (True, c3) \<Rightarrow> parse_args n expr_rec (args @ [a]) c3
                   | (False, _) \<Rightarrow> parse_return (args @ [a]) c2)"

fun call_loop :: "nat \<Rightarrow> expr_parser \<Rightarrow> Cursor \<Rightarrow> Expr \<Rightarrow> Cursor \<Rightarrow> Expr parse_result" where
  "call_loop 0 expr_rec start e c0 = None"
| "call_loop (Suc n) expr_rec start e c0 =
     (let c = skip_whitespace c0
      in case match c ''('' of
           (True, c1) \<Rightarrow>
             (let c2 = skip_whitespace c1
              in bind_parse (if \<not> peek c2 '')'' then parse_args n expr_rec [] c2
                             else parse_return [] c2)
                   (\<lambda>args c3.
                      bind_parse (expect c3 '')'')
                        (\<lambda>_ c4. call_loop n expr_rec start
                                   (CallExpr (make_span start c4) None e args) c4)))
         | (False, _) \<Rightarrow> parse_return e c)"

definition parse_call :: "nat \<Rightarrow> expr_parser \<Rightarrow> Cursor \<Rightarrow> Expr parse_result" where
  "parse_call n expr_rec start =
     bind_parse (parse_primary expr_rec start) (call_loop n expr_rec start)"

fun parse_unary :: "nat \<Rightarrow> expr_parser \<Rightarrow> Cursor \<Rightarrow> Expr parse_result" where
  "parse_unary 0 expr_rec start = None"
| "parse_unary (Suc n) expr_rec start =
     (let c = skip_whitespace start
      in case match c ''-'' of
           (True, c1) \<Rightarrow>
             bind_parse (parse_unary n expr_rec c1)
               (\<lambda>operand c2.
                  parse_return (UnaryExpr (make_span start c2) None Neg operand) c2)
         | (False, _) \<Rightarrow>
        (case match c ''!'' of
           (True, c1) \<Rightarrow>
             bind_parse (parse_unary n expr_rec c1)
               (\<lambda>operand c2.
                  parse_return (UnaryExpr (make_span start c2) None NotOp operand) c2)
         | (False, _) \<Rightarrow>
        (case match c ''&'' of
           (True, c1) \<Rightarrow>
             (case match c1 ''mut'' of
                (is_mut, c2) \<Rightarrow>
                  bind_parse (parse_unary n expr_rec (if is_mut then skip_whitespace c2 else c2))
                    (\<lambda>e c3. parse_return (BorrowExpr (make_span start c3) None is_mut e) c3))
         | (False, _) \<Rightarrow> parse_call n expr_rec c)))"

text \<open>The chain \<^verbatim>\<open>if (match(t1)) op = o1; else if (match(t2)) op = o2; \<dots> else break\<close>:
  the first token of the table that matches.\<close>

fun match_op :: "Cursor \<Rightarrow> (string \<times> BinaryOp) list \<Rightarrow> (BinaryOp \<times> Cursor) option" where
  "match_op c [] = None"
| "match_op c ((tok, oper) # table) =
     (case match c tok of (True, c1) \<Rightarrow> Some (oper, c1) | (False, _) \<Rightarrow> match_op c table)"

fun factor_loop :: "nat \<Rightarrow> expr_parser \<Rightarrow> Cursor \<Rightarrow> Expr \<Rightarrow> Cursor \<Rightarrow> Expr parse_result" where
  "factor_loop 0 expr_rec start e c0 = None"
| "factor_loop (Suc n) expr_rec start e c0 =
     (let c = skip_whitespace c0
      in case match_op c [(''*'', Mul), (''/'', Div)] of
           None \<Rightarrow> parse_return e c
         | Some (oper, c1) \<Rightarrow>
             bind_parse (parse_unary n expr_rec (skip_whitespace c1))
               (\<lambda>right c2. factor_loop n expr_rec start
                              (BinaryExpr (make_span start c2) None oper e right) c2))"

definition parse_factor :: "nat \<Rightarrow> expr_parser \<Rightarrow> Cursor \<Rightarrow> Expr parse_result" where
  "parse_factor n expr_rec start =
     bind_parse (parse_unary n expr_rec start) (factor_loop n expr_rec start)"

fun term_loop :: "nat \<Rightarrow> expr_parser \<Rightarrow> Cursor \<Rightarrow> Expr \<Rightarrow> Cursor \<Rightarrow> Expr parse_result" where
  "term_loop 0 expr_rec start e c0 = None"
| "term_loop (Suc n) expr_rec start e c0 =
     (let c = skip_whitespace c0
      in case match_op c [(''+'', Add), (''-'', Sub)] of
           None \<Rightarrow> parse_return e c
         | Some (oper, c1) \<Rightarrow>
             bind_parse (parse_factor n expr_rec (skip_whitespace c1))
               (\<lambda>right c2. term_loop n expr_rec start
                              (BinaryExpr (make_span start c2) None oper e right) c2))"

definition parse_term :: "nat \<Rightarrow> expr_parser \<Rightarrow> Cursor \<Rightarrow> Expr parse_result" where
  "parse_term n expr_rec start =
     bind_parse (parse_factor n expr_rec start) (term_loop n expr_rec start)"

fun comparison_loop ::
  "nat \<Rightarrow> expr_parser \<Rightarrow> Cursor \<Rightarrow> Expr \<Rightarrow> Cursor \<Rightarrow> Expr parse_result" where
  "comparison_loop 0 expr_rec start e c0 = None"
| "comparison_loop (Suc n) expr_rec start e c0 =
     (let c = skip_whitespace c0
      in case match_op c [(''<'', Lt), (''<='', Le), (''>'', Gt), (''>='', Ge)] of
           None \<Rightarrow> parse_return e c
         | Some (oper, c1) \<Rightarrow>
             bind_parse (parse_term n expr_rec (skip_whitespace c1))
               (\<lambda>right c2. comparison_loop n expr_rec start
                              (BinaryExpr (make_span start c2) None oper e right) c2))"

definition parse_comparison :: "nat \<Rightarrow> expr_parser \<Rightarrow> Cursor \<Rightarrow> Expr parse_result" where
  "parse_comparison n expr_rec start =
     bind_parse (parse_term n expr_rec start) (comparison_loop n expr_rec start)"

text \<open>In the three loops that follow the span of the new node starts where the span of its
  left operand starts: \<^verbatim>\<open>make_span(expr->span.start)\<close>.\<close>

fun equality_loop :: "nat \<Rightarrow> expr_parser \<Rightarrow> Expr \<Rightarrow> Cursor \<Rightarrow> Expr parse_result" where
  "equality_loop 0 expr_rec e c = None"
| "equality_loop (Suc n) expr_rec e c =
     (case match_op c [(''=='', Eq), (''!='', Ne)] of
        None \<Rightarrow> parse_return e c
      | Some (oper, c1) \<Rightarrow>
          bind_parse (parse_comparison n expr_rec (skip_whitespace c1))
            (\<lambda>right c2. equality_loop n expr_rec
                           (BinaryExpr (Span (span_start (expr_span e)) (pos c2)) None oper
                              e right) c2))"

definition parse_equality :: "nat \<Rightarrow> expr_parser \<Rightarrow> Cursor \<Rightarrow> Expr parse_result" where
  "parse_equality n expr_rec start =
     bind_parse (parse_comparison n expr_rec start) (equality_loop n expr_rec)"

fun and_loop :: "nat \<Rightarrow> expr_parser \<Rightarrow> Expr \<Rightarrow> Cursor \<Rightarrow> Expr parse_result" where
  "and_loop 0 expr_rec e c = None"
| "and_loop (Suc n) expr_rec e c =
     (case match c ''&&'' of
        (True, c1) \<Rightarrow>
          bind_parse (parse_equality n expr_rec (skip_whitespace c1))
            (\<lambda>right c2. and_loop n expr_rec
                           (BinaryExpr (Span (span_start (expr_span e)) (pos c2)) None And
                              e right) c2)
      | (False, _) \<Rightarrow> parse_return e c)"

definition parse_and :: "nat \<Rightarrow> expr_parser \<Rightarrow> Cursor \<Rightarrow> Expr parse_result" where
  "parse_and n expr_rec start =
     bind_parse (parse_equality n expr_rec start) (and_loop n expr_rec)"

fun or_loop :: "nat \<Rightarrow> expr_parser \<Rightarrow> Expr \<Rightarrow> Cursor \<Rightarrow> Expr parse_result" where
  "or_loop 0 expr_rec e c = None"
| "or_loop (Suc n) expr_rec e c =
     (case match c ''||'' of
        (True, c1) \<Rightarrow>
          bind_parse (parse_and n expr_rec (skip_whitespace c1))
            (\<lambda>right c2. or_loop n expr_rec
                           (BinaryExpr (Span (span_start (expr_span e)) (pos c2)) None Or
                              e right) c2)
      | (False, _) \<Rightarrow> parse_return e c)"

definition parse_or :: "nat \<Rightarrow> expr_parser \<Rightarrow> Cursor \<Rightarrow> Expr parse_result" where
  "parse_or n expr_rec start =
     bind_parse (parse_and n expr_rec start) (or_loop n expr_rec)"

text \<open>\<^verbatim>\<open>dynamic_cast<Identifier*>(lhs.get()) != nullptr\<close>.\<close>

fun is_Identifier :: "Expr \<Rightarrow> bool" where
  "is_Identifier (Identifier sp t nm m) = True"
| "is_Identifier e = False"

fun parse_assignment :: "nat \<Rightarrow> expr_parser \<Rightarrow> Cursor \<Rightarrow> Expr parse_result" where
  "parse_assignment 0 expr_rec start = None"
| "parse_assignment (Suc n) expr_rec start =
     bind_parse (parse_or n expr_rec start)
       (\<lambda>lhs c.
          case match c ''='' of
            (True, c1) \<Rightarrow>
              if \<not> is_Identifier lhs then
                parse_throw (runtime_error ''Invalid assignment target'')
              else
                bind_parse (parse_assignment n expr_rec (skip_whitespace c1))
                  (\<lambda>rhs c2.
                     parse_return
                       (BinaryExpr (Span (span_start (expr_span lhs)) (pos c2)) None Assignment
                          lhs rhs) c2)
          | (False, _) \<Rightarrow> parse_return lhs c)"

fun parse_expr :: "nat \<Rightarrow> Cursor \<Rightarrow> Expr parse_result" where
  "parse_expr 0 c = None"
| "parse_expr (Suc n) c = parse_assignment (Suc n) (parse_expr n) c"

text \<open>\<^verbatim>\<open>parse_let\<close> is entered after \<^verbatim>\<open>match("let")\<close>.\<close>

definition parse_let :: "nat \<Rightarrow> Cursor \<Rightarrow> Stmt parse_result" where
  "parse_let n start =
     (case match (skip_whitespace start) ''mut'' of
        (is_mut, c) \<Rightarrow>
          bind_parse (consume_identifier (if is_mut then skip_whitespace c else c))
            (\<lambda>name c1.
          bind_parse (expect (skip_whitespace c1) '':'')
            (\<lambda>_ c2.
          bind_parse (parse_type n (skip_whitespace c2))
            (\<lambda>ty c3.
          bind_parse (expect (skip_whitespace c3) ''='')
            (\<lambda>_ c4.
          bind_parse (parse_expr n (skip_whitespace c4))
            (\<lambda>init c5.
          bind_parse (expect (skip_whitespace c5) '';'')
            (\<lambda>_ c6.
               parse_return (LetStmt (make_span start c6) is_mut name ty init) c6)))))))"

text \<open>
  The statement parsers call each other in a cycle through \<^verbatim>\<open>parse_statement\<close>; as
  for expressions, each takes \<open>stmt_rec\<close>, the \<^verbatim>\<open>parse_statement\<close> it calls, as an
  argument. \<open>block_loop\<close> is the \<^verbatim>\<open>while (!at_end() && !peek("}"))\<close> of
  \<^verbatim>\<open>parse_block\<close>. \<^verbatim>\<open>parse_if\<close> and \<^verbatim>\<open>parse_while\<close> are entered after their
  keyword has been matched.
\<close>

type_synonym stmt_parser = "Cursor \<Rightarrow> Stmt parse_result"

fun block_loop :: "nat \<Rightarrow> stmt_parser \<Rightarrow> Stmt list \<Rightarrow> Cursor \<Rightarrow> (Stmt list) parse_result" where
  "block_loop 0 stmt_rec statements c = None"
| "block_loop (Suc n) stmt_rec statements c =
     (if \<not> at_end c \<and> \<not> peek c ''}'' then
        bind_parse (stmt_rec c)
          (\<lambda>st c1. block_loop n stmt_rec (statements @ [st]) (skip_whitespace c1))
      else parse_return statements c)"

definition parse_block :: "nat \<Rightarrow> stmt_parser \<Rightarrow> Cursor \<Rightarrow> Stmt parse_result" where
  "parse_block n stmt_rec start =
     bind_parse (expect start ''{'')
       (\<lambda>_ c.
     bind_parse (block_loop n stmt_rec [] (skip_whitespace c))
       (\<lambda>statements c1.
     bind_parse (expect c1 ''}'')
       (\<lambda>_ c2. parse_return (BlockStmt (make_span start c2) statements) c2)))"

fun parse_if :: "nat \<Rightarrow> stmt_parser \<Rightarrow> Cursor \<Rightarrow> Stmt parse_result" where
  "parse_if 0 stmt_rec start = None"
| "parse_if (Suc n) stmt_rec start =
     bind_parse (parse_expr (Suc n) (skip_whitespace start))
       (\<lambda>condition c.
     bind_parse (parse_block (Suc n) stmt_rec (skip_whitespace c))
       (\<lambda>then_branch c1.
          let c2 = skip_whitespace c1
          in case match c2 ''else'' of
               (True, c3) \<Rightarrow>
                 (let c4 = skip_whitespace c3
                  in bind_parse (case match c4 ''if'' of
                                   (True, c5) \<Rightarrow> parse_if n stmt_rec c5
                                 | (False, _) \<Rightarrow> parse_block (Suc n) stmt_rec c4)
                       (\<lambda>else_branch c6.
                          parse_return
                            (IfStmt (make_span start c6) condition then_branch
                               (Some else_branch)) c6))
             | (False, _) \<Rightarrow>
                 parse_return (IfStmt (make_span start c2) condition then_branch None) c2))"

definition parse_while :: "nat \<Rightarrow> stmt_parser \<Rightarrow> Cursor \<Rightarrow> Stmt parse_result" where
  "parse_while n stmt_rec start =
     bind_parse (parse_expr n (skip_whitespace start))
       (\<lambda>condition c.
     bind_parse (parse_block n stmt_rec (skip_whitespace c))
       (\<lambda>bdy c1. parse_return (WhileStmt (make_span start c1) condition bdy) c1))"

fun parse_statement :: "nat \<Rightarrow> Cursor \<Rightarrow> Stmt parse_result" where
  "parse_statement 0 c0 = None"
| "parse_statement (Suc n) c0 =
     (let c = skip_whitespace c0
      in case match c ''let'' of
           (True, c1) \<Rightarrow> parse_let (Suc n) c1
         | (False, _) \<Rightarrow>
        (case match c ''if'' of
           (True, c1) \<Rightarrow> parse_if (Suc n) (parse_statement n) c1
         | (False, _) \<Rightarrow>
        (case match c ''while'' of
           (True, c1) \<Rightarrow> parse_while (Suc n) (parse_statement n) c1
         | (False, _) \<Rightarrow>
             if peek c ''{'' then parse_block (Suc n) (parse_statement n) c
             else
               bind_parse (parse_expr (Suc n) c)
                 (\<lambda>expr c1.
                    let c2 = skip_whitespace c1
                    in bind_parse (if \<not> peek c2 ''}'' \<and> \<not> at_end c2 then expect c2 '';''
                                   else parse_return () c2)
                         (\<lambda>_ c3. parse_return (ExprStmt (make_span c c3) expr) c3)))))"

text \<open>The \<^verbatim>\<open>do \<dots> while (match(","))\<close> of \<^verbatim>\<open>parse_params\<close>.\<close>

fun params_loop :: "nat \<Rightarrow> Param list \<Rightarrow> Cursor \<Rightarrow> (Param list) parse_result" where
  "params_loop 0 ps param_start = None"
| "params_loop (Suc n) ps param_start =
     (case match (skip_whitespace param_start) ''mut'' of
        (is_mut, c) \<Rightarrow>
          bind_parse (consume_identifier (if is_mut then skip_whitespace c else c))
            (\<lambda>name c1.
          bind_parse (expect (skip_whitespace c1) '':'')
            (\<lambda>_ c2.
          bind_parse (parse_type (Suc n) (skip_whitespace c2))
            (\<lambda>ty c3.
               let ps' = ps @ [Param is_mut name ty (make_span param_start c3)];
                   c4 = skip_whitespace c3
               in case match c4 '','' of
                    (True, c5) \<Rightarrow> params_loop n ps' c5
                  | (False, _) \<Rightarrow> parse_return ps' c4))))"

definition parse_params :: "nat \<Rightarrow> Cursor \<Rightarrow> (Param list) parse_result" where
  "parse_params n c0 =
     (let c = skip_whitespace c0
      in if peek c '')'' then parse_return [] c else params_loop n [] c)"

definition parse_function :: "nat \<Rightarrow> Cursor \<Rightarrow> FunctionDecl parse_result" where
  "parse_function n start =
     bind_parse (expect start ''fn'')
       (\<lambda>_ c.
     bind_parse (consume_identifier (skip_whitespace c))
       (\<lambda>name c1.
     bind_parse (expect (skip_whitespace c1) ''('')
       (\<lambda>_ c2.
     bind_parse (parse_params n c2)
       (\<lambda>ps c3.
     bind_parse (expect c3 '')'')
       (\<lambda>_ c4.
     bind_parse
       (case match (skip_whitespace c4) ''->'' of
          (True, c5) \<Rightarrow>
            bind_parse (parse_type n (skip_whitespace c5))
              (\<lambda>ty c6. parse_return ty (skip_whitespace c6))
        | (False, c5) \<Rightarrow> parse_return (Type I32 None (make_span c5 c5)) c5)
       (\<lambda>ret c7.
     bind_parse (parse_block n (parse_statement n) c7)
       (\<lambda>bdy c8.
          parse_return (FunctionDecl (make_span start c8) name ps ret bdy) c8)))))))"

text \<open>The loop of \<^verbatim>\<open>Parser::parse\<close>.\<close>

fun items_loop :: "nat \<Rightarrow> FunctionDecl list \<Rightarrow> Cursor \<Rightarrow> (FunctionDecl list) parse_result" where
  "items_loop 0 fs c = None"
| "items_loop (Suc n) fs c =
     (if \<not> at_end c then
        bind_parse (parse_function (Suc n) c)
          (\<lambda>func c1. items_loop n (fs @ [func]) (skip_whitespace c1))
      else parse_return fs c)"

definition parse_with_fuel :: "nat \<Rightarrow> string \<Rightarrow> (exn + Program) option" where
  "parse_with_fuel n source =
     (case items_loop n [] (skip_whitespace (Cursor 0 source)) of
        None \<Rightarrow> None
      | Some (Inl e) \<Rightarrow> Some (Inl e)
      | Some (Inr (fs, c)) \<Rightarrow> Some (Inr (Program (Span 0 (pos c)) fs)))"

text \<open>\<^verbatim>\<open>Parser(source).parse()\<close>, with fuel in proportion to the length of the source.\<close>

definition parse :: "string \<Rightarrow> (exn + Program) option" where
  "parse source = parse_with_fuel (length source + 2) source"

section \<open>Output files (src/main.cpp)\<close>

fun opcode_to_string :: "Opcode \<Rightarrow> string" where
  "opcode_to_string PUSH_I32 = ''PUSH_I32''"
| "opcode_to_string PUSH_BOOL = ''PUSH_BOOL''"
| "opcode_to_string PUSH_STR = ''PUSH_STR''"
| "opcode_to_string POP = ''POP''"
| "opcode_to_string DUP = ''DUP''"
| "opcode_to_string SWAP = ''SWAP''"
| "opcode_to_string LOAD = ''LOAD''"
| "opcode_to_string STORE = ''STORE''"
| "opcode_to_string LOAD_REF = ''LOAD_REF''"
| "opcode_to_string STORE_REF = ''STORE_REF''"
| "opcode_to_string ADD_I32 = ''ADD_I32''"
| "opcode_to_string SUB_I32 = ''SUB_I32''"
| "opcode_to_string MUL_I32 = ''MUL_I32''"
| "opcode_to_string DIV_I32 = ''DIV_I32''"
| "opcode_to_string NEG_I32 = ''NEG_I32''"
| "opcode_to_string EQ_I32 = ''EQ_I32''"
| "opcode_to_string NE_I32 = ''NE_I32''"
| "opcode_to_string LT_I32 = ''LT_I32''"
| "opcode_to_string GT_I32 = ''GT_I32''"
| "opcode_to_string LE_I32 = ''LE_I32''"
| "opcode_to_string GE_I32 = ''GE_I32''"
| "opcode_to_string AND = ''AND''"
| "opcode_to_string OR = ''OR''"
| "opcode_to_string NOT = ''NOT''"
| "opcode_to_string JMP = ''JMP''"
| "opcode_to_string JMP_IF = ''JMP_IF''"
| "opcode_to_string JMP_IF_NOT = ''JMP_IF_NOT''"
| "opcode_to_string CALL = ''CALL''"
| "opcode_to_string RET = ''RET''"
| "opcode_to_string RET_VAL = ''RET_VAL''"
| "opcode_to_string BORROW = ''BORROW''"
| "opcode_to_string BORROW_MUT = ''BORROW_MUT''"
| "opcode_to_string DEREF = ''DEREF''"
| "opcode_to_string DEREF_MUT = ''DEREF_MUT''"

text \<open>The enumerators of \<^verbatim>\<open>enum class Opcode : uint8_t\<close> count from 0 in the order of
  their declaration.\<close>

definition all_opcodes :: "Opcode list" where
  "all_opcodes =
     [PUSH_I32, PUSH_BOOL, PUSH_STR, POP, DUP, SWAP, LOAD, STORE, LOAD_REF, STORE_REF,
      ADD_I32, SUB_I32, MUL_I32, DIV_I32, NEG_I32,
      EQ_I32, NE_I32, LT_I32, GT_I32, LE_I32, GE_I32, AND, OR, NOT,
      JMP, JMP_IF, JMP_IF_NOT, CALL, RET, RET_VAL, BORROW, BORROW_MUT, DEREF, DEREF_MUT]"

fun index_of :: "'a \<Rightarrow> 'a list \<Rightarrow> nat" where
  "index_of x [] = 0"
| "index_of x (y # ys) = (if x = y then 0 else Suc (index_of x ys))"

definition opcode_byte :: "Opcode \<Rightarrow> 8 word" where
  "opcode_byte opc = of_nat (index_of opc all_opcodes)"

text \<open>One line of the \<^verbatim>\<open>.ns\<close> listing, and the listing.\<close>

definition asm_line :: "Instruction \<Rightarrow> string" where
  "asm_line instr =
     opcode_to_string (opcode instr)
       @ (if has_operand instr then '' '' @ to_string (unat (operand instr)) else [])
       @ [CHR 0x0A]"

definition write_asm :: "Instruction list \<Rightarrow> string" where
  "write_asm instrs = concat (map asm_line instrs)"

text \<open>The bytes of one instruction in the \<^verbatim>\<open>.no\<close> file:
  \<^verbatim>\<open>(instr.operand >> (i * 8)) & 0xFF\<close> for \<^verbatim>\<open>i\<close> from 0 below \<^verbatim>\<open>sizeof(size_t)\<close>.\<close>

definition operand_bytes :: "size_t \<Rightarrow> 8 word list" where
  "operand_bytes n = map (\<lambda>i. ucast (drop_bit (i * 8) n)) [0..<8]"

definition bytecode_of :: "Instruction \<Rightarrow> 8 word list" where
  "bytecode_of instr =
     opcode_byte (opcode instr)
       # (if has_operand instr then operand_bytes (operand instr) else [])"

definition write_bytecode :: "Instruction list \<Rightarrow> 8 word list" where
  "write_bytecode instrs = concat (map bytecode_of instrs)"

text \<open>
  Modelled from the spec: the repository has no reader of the \<^verbatim>\<open>.ns\<close> listing. The
  spec reads it back line by line, splitting each line on whitespace, matching the first
  word against the opcode table and reading the decimal operand when the opcode takes one.
  A line that does not have this form has no reading (\<open>None\<close>).
\<close>

definition split_ws :: "string \<Rightarrow> string list" where
  "split_ws line =
     filter (\<lambda>w. w \<noteq> [])
       (foldr (\<lambda>c ws. if isspace c then [] # ws else (c # hd ws) # tl ws) line [[]])"

definition opcode_of_string :: "string \<Rightarrow> Opcode option" where
  "opcode_of_string w = find (\<lambda>opc. opcode_to_string opc = w) all_opcodes"

definition read_decimal :: "string \<Rightarrow> size_t option" where
  "read_decimal w =
     (if w \<noteq> [] \<and> list_all isdigit w then Some (of_int (decimal_value w)) else None)"

definition read_asm_line :: "string \<Rightarrow> Instruction option" where
  "read_asm_line line =
     (case split_ws line of
        [w] \<Rightarrow>
          (case opcode_of_string w of
             Some opc \<Rightarrow> if has_operand (Instruction opc 0) then None else Some (Instruction opc 0)
           | None \<Rightarrow> None)
      | [w, n] \<Rightarrow>
          (case opcode_of_string w of
             Some opc \<Rightarrow>
               if has_operand (Instruction opc 0) then map_option (Instruction opc) (read_decimal n)
               else None
           | None \<Rightarrow> None)
      | _ \<Rightarrow> None)"

text \<open>The lines of a text: the pieces that a newline ends.\<close>

fun lines_of :: "string \<Rightarrow> string \<Rightarrow> string list" where
  "lines_of acc [] = (if acc = [] then [] else [acc])"
| "lines_of acc (c # cs) =
     (if c = CHR 0x0A then acc # lines_of [] cs else lines_of (acc @ [c]) cs)"

fun read_all :: "string list \<Rightarrow> Instruction list option" where
  "read_all [] = Some []"
| "read_all (l # ls) =
     (case read_asm_line l of None \<Rightarrow> None
      | Some i \<Rightarrow> (case read_all ls of None \<Rightarrow> None | Some is \<Rightarrow> Some (i # is)))"

definition read_asm :: "string \<Rightarrow> Instruction list option" where
  "read_asm text = read_all (lines_of [] text)"

section \<open>Predicates and sample programs of the statements\<close>

text \<open>
  What follows is not part of the program: the predicates in which the properties below are
  stated, and the syntax trees and states at which they are exercised.
\<close>

definition is_jump :: "Opcode \<Rightarrow> bool" where
  "is_jump opc = (opc = JMP \<or> opc = JMP_IF \<or> opc = JMP_IF_NOT)"

definition plain :: "Instruction list \<Rightarrow> bool" where
  "plain code = list_all (\<lambda>ins. \<not> is_jump (opcode ins) \<and> opcode ins \<noteq> RET_VAL) code"

definition targets_within :: "nat \<Rightarrow> Instruction list \<Rightarrow> bool" where
  "targets_within n code =
     list_all (\<lambda>ins. is_jump (opcode ins) \<longrightarrow> unat (operand ins) \<le> n) code"

definition no_ret_val :: "Instruction list \<Rightarrow> bool" where
  "no_ret_val code = list_all (\<lambda>ins. opcode ins \<noteq> RET_VAL) code"

definition extends :: "Compiler \<Rightarrow> Compiler \<Rightarrow> bool" where
  "extends c c' =
     (length (instructions c) \<le> length (instructions c')
      \<and> take (length (instructions c)) (instructions c') = instructions c
      \<and> function_table c' = function_table c)"

definition jumps_inv :: "Compiler \<Rightarrow> bool" where
  "jumps_inv c =
     (targets_within (length (instructions c)) (instructions c) \<and> no_ret_val (instructions c))"

definition targets_inside :: "Instruction list \<Rightarrow> bool" where
  "targets_inside code =
     list_all (\<lambda>ins. is_jump (opcode ins) \<longrightarrow> unat (operand ins) < length code) code"

definition ends_with_RET :: "Instruction list \<Rightarrow> bool" where
  "ends_with_RET region = (region \<noteq> [] \<and> last region = Instruction RET 0)"

definition if_while_program :: Program where
  "if_while_program =
     Program (Span 0 0)
       [FunctionDecl (Span 0 0) ''main'' [] (Type I32 None (Span 0 0))
          (BlockStmt (Span 0 0)
             [LetStmt (Span 0 0) True ''x'' (Type I32 None (Span 0 0))
                (IntLiteral (Span 0 0) None 10),
              WhileStmt (Span 0 0)
                (BinaryExpr (Span 0 0) None Gt (Identifier (Span 0 0) None ''x'' False)
                   (IntLiteral (Span 0 0) None 0))
                (BlockStmt (Span 0 0)
                   [IfStmt (Span 0 0) (BoolLiteral (Span 0 0) None True)
                      (BlockStmt (Span 0 0) [])
                      (Some (BlockStmt (Span 0 0)
                         [ExprStmt (Span 0 0)
                            (BinaryExpr (Span 0 0) None Assignment
                               (Identifier (Span 0 0) None ''x'' False)
                               (IntLiteral (Span 0 0) None 1))]))])])]"

definition if_while_code :: "Instruction list" where
  "if_while_code =
     [Instruction PUSH_I32 10, Instruction STORE 0, Instruction LOAD 0, Instruction PUSH_I32 0,
      Instruction GT_I32 0, Instruction JMP_IF_NOT 14, Instruction PUSH_BOOL 1,
      Instruction JMP_IF_NOT 9, Instruction JMP 13, Instruction PUSH_I32 1,
      Instruction STORE 0, Instruction LOAD 0, Instruction POP 0, Instruction JMP 2,
      Instruction RET 0]"

fun compile_sequence :: "Expr list \<Rightarrow> Compiler \<Rightarrow> exn + Compiler" where
  "compile_sequence [] c = Inr c"
| "compile_sequence (e # es) c =
     (case compile_expression e c of Inl x \<Rightarrow> Inl x | Inr c1 \<Rightarrow> compile_sequence es c1)"

definition add_decl :: FunctionDecl where
  "add_decl =
     FunctionDecl (Span 0 31) ''add''
       [Param False ''x'' (Type I32 None (Span 9 12)) (Span 7 12),
        Param False ''y'' (Type I32 None (Span 15 18)) (Span 13 18)]
       (Type I32 None (Span 21 24))
       (BlockStmt (Span 24 31)
          [ExprStmt (Span 26 30)
             (BinaryExpr (Span 26 30) None Add (Identifier (Span 26 26) None ''x'' False)
                (Identifier (Span 28 28) None ''y'' False))])"

definition main_decl :: FunctionDecl where
  "main_decl =
     FunctionDecl (Span 32 66) ''main'' [] (Type I32 None (Span 41 41))
       (BlockStmt (Span 41 66)
          [LetStmt (Span 46 64) False ''r'' (Type I32 None (Span 49 52))
             (CallExpr (Span 55 63) None (Identifier (Span 55 55) None ''add'' False)
                [IntLiteral (Span 59 59) None 1, IntLiteral (Span 61 61) None 2])])"

definition pass_one :: Compiler where
  "pass_one = Compiler_new\<lparr>function_table := register_functions [add_decl, main_decl]\<rparr>"

definition grows :: "bool \<Rightarrow> TypeChecker \<Rightarrow> TypeChecker \<Rightarrow> bool" where
  "grows ok tc tc' = (\<exists>es. errors tc' = errors tc @ es \<and> (ok \<longleftrightarrow> es = []))"

text \<open>
  What the checker does between two expressions of a function is a sequence of calls of
  \<^verbatim>\<open>check_expression\<close>, \<^verbatim>\<open>check_statement\<close>, \<^verbatim>\<open>declare_variable\<close>,
  \<^verbatim>\<open>enter_scope\<close>, \<^verbatim>\<open>exit_scope\<close> and \<^verbatim>\<open>error\<close>: \<^verbatim>\<open>check_block\<close>,
  \<^verbatim>\<open>check_function\<close> and the return check are made of these. A \<open>Step\<close> is one such
  call, \<open>run_steps\<close> performs a list of them, whatever their results are.
\<close>

datatype Step =
    CheckExpr Expr
  | CheckStmt Stmt
  | Declare string Type bool
  | EnterScope
  | ExitScope
  | Report string Span

fun run_step :: "FunctionDecl list \<Rightarrow> Step \<Rightarrow> TypeChecker \<Rightarrow> TypeChecker option" where
  "run_step prog (CheckExpr e) tc =
     (case check_expression prog e tc of None \<Rightarrow> None | Some (ok, e', tc') \<Rightarrow> Some tc')"
| "run_step prog (CheckStmt s) tc =
     (case check_statement prog s tc of None \<Rightarrow> None | Some (ok, s', tc') \<Rightarrow> Some tc')"
| "run_step prog (Declare nm ty m) tc = Some (snd (declare_variable nm ty m tc))"
| "run_step prog EnterScope tc = Some (enter_scope tc)"
| "run_step prog ExitScope tc = Some (exit_scope tc)"
| "run_step prog (Report msg sp) tc = Some (error msg sp tc)"

fun run_steps :: "FunctionDecl list \<Rightarrow> Step list \<Rightarrow> TypeChecker \<Rightarrow> TypeChecker option" where
  "run_steps prog [] tc = Some tc"
| "run_steps prog (st # sts) tc =
     (case run_step prog st tc of None \<Rightarrow> None | Some tc' \<Rightarrow> run_steps prog sts tc')"

text \<open>A step that declares the name \<open>v\<close> in the scope it starts in: a \<^verbatim>\<open>let\<close> of
  that name or a direct declaration. A block that holds such a \<^verbatim>\<open>let\<close> does not count, it
  declares in the scope it opens and leaves.\<close>

fun declares :: "string \<Rightarrow> Step \<Rightarrow> bool" where
  "declares v (CheckStmt (LetStmt sp m nm ty init)) = (nm = v)"
| "declares v (Declare nm ty m) = (nm = v)"
| "declares v st = False"

text \<open>\<open>frame_stays prog k steps tc\<close>: along the steps no \<^verbatim>\<open>exit_scope\<close> pops the scope
  at index \<open>k\<close> of the stack or one below it.\<close>

fun frame_stays :: "FunctionDecl list \<Rightarrow> nat \<Rightarrow> Step list \<Rightarrow> TypeChecker \<Rightarrow> bool" where
  "frame_stays prog k [] tc = True"
| "frame_stays prog k (st # sts) tc =
     ((st = ExitScope \<longrightarrow> k + 1 < length (scopes tc))
      \<and> (case run_step prog st tc of None \<Rightarrow> True | Some tc' \<Rightarrow> frame_stays prog k sts tc'))"

text \<open>A type with at most one level of reference: \<^verbatim>\<open>i32\<close>, \<^verbatim>\<open>bool\<close>, \<^verbatim>\<open>str\<close>, or a
  reference to one of these.\<close>

definition one_reference :: "Type \<Rightarrow> bool" where
  "one_reference ty = (case base_type ty of None \<Rightarrow> True | Some b \<Rightarrow> base_type b = None)"

text \<open>
  The relation between the entries of one name in a scope before and after a call: a name
  that is absent stays absent, one that is present stays present with its mutability, and
  a stored type of kind \<^verbatim>\<open>MutRef\<close> stays of that kind. \<open>frames_kept\<close> is that for every
  scope of the stack; \<open>stmt_kept\<close> is what a statement keeps, which may declare the name in
  the innermost scope when \<open>d\<close> holds.
\<close>

definition entry_kept :: "VariableInfo option \<Rightarrow> VariableInfo option \<Rightarrow> bool" where
  "entry_kept e e' =
     (case e of
        None \<Rightarrow> e' = None
      | Some vi \<Rightarrow>
          (case e' of
             None \<Rightarrow> False
           | Some vi' \<Rightarrow>
               vi_is_mut vi' = vi_is_mut vi
               \<and> (kind (vi_type vi) = MutRef \<longrightarrow> kind (vi_type vi') = MutRef)))"

definition frames_kept ::
  "string \<Rightarrow> (string \<rightharpoonup> VariableInfo) list \<Rightarrow> (string \<rightharpoonup> VariableInfo) list \<Rightarrow> bool" where
  "frames_kept v fs fs' = list_all2 (\<lambda>f f'. entry_kept (f v) (f' v)) fs fs'"

definition stmt_kept ::
  "string \<Rightarrow> bool \<Rightarrow> (string \<rightharpoonup> VariableInfo) list \<Rightarrow> (string \<rightharpoonup> VariableInfo) list \<Rightarrow> bool"
  where
  "stmt_kept v d fs fs' =
     (fs \<noteq> [] \<and> fs' \<noteq> [] \<and> frames_kept v (butlast fs) (butlast fs')
      \<and> (if d \<and> last fs v = None then True else entry_kept (last fs v) (last fs' v)))"

text \<open>The variable found for \<open>v\<close> is mutable and the type stored for it is of kind
  \<^verbatim>\<open>MutRef\<close>; and the scope at index \<open>k\<close> holds \<open>v\<close> with a type of that kind.\<close>

definition mutably_borrowed :: "string \<Rightarrow> TypeChecker \<Rightarrow> bool" where
  "mutably_borrowed v tc =
     (case lookup_variable v tc of
        None \<Rightarrow> False
      | Some vi \<Rightarrow> kind (vi_type vi) = MutRef \<and> vi_is_mut vi)"

definition frame_marked :: "nat \<Rightarrow> string \<Rightarrow> TypeChecker \<Rightarrow> bool" where
  "frame_marked k v tc =
     (k < length (scopes tc)
      \<and> (case (scopes tc ! k) v of None \<Rightarrow> False | Some vi \<Rightarrow> kind (vi_type vi) = MutRef))"

definition f_decl :: FunctionDecl where
  "f_decl =
     FunctionDecl (Span 0 28) ''f'' [] (Type I32 None (Span 6 6))
       (BlockStmt (Span 6 28)
          [LetStmt (Span 11 26) False ''a'' (Type I32 None (Span 15 18))
             (BoolLiteral (Span 21 25) None True)])"

definition g_decl :: FunctionDecl where
  "g_decl =
     FunctionDecl (Span 29 57) ''g'' [] (Type I32 None (Span 35 35))
       (BlockStmt (Span 35 57)
          [LetStmt (Span 40 55) False ''b'' (Type I32 None (Span 44 47))
             (BoolLiteral (Span 50 54) None True)])"

definition outer_v :: TypeChecker where
  "outer_v =
     \<lparr>scopes = [Map.empty(''v'' \<mapsto> VariableInfo (Type I32 None (Span 23 26)) True), Map.empty],
      errors = []\<rparr>"

text \<open>Sample steps: what follows a borrow of \<open>v\<close> without leaving its scope (with a
  block that shadows \<open>v\<close> inside), and what follows it with the scope of the borrow left.\<close>

definition later_steps :: "Step list" where
  "later_steps =
     [Declare ''b'' (Type MutRef (Some (Type I32 None (Span 45 48))) (Span 40 48)) False,
      CheckStmt (BlockStmt (Span 60 80)
        [LetStmt (Span 66 78) False ''v'' (Type I32 None (Span 69 72))
           (IntLiteral (Span 76 76) None 1)]),
      EnterScope,
      CheckExpr (Identifier (Span 90 90) None ''b'' False),
      Report ''Function return type mismatch'' (Span 90 90)]"

definition release_steps :: "Step list" where
  "release_steps =
     [Declare ''w'' (Type MutRef (Some (Type I32 None (Span 46 49))) (Span 41 49)) False,
      ExitScope,
      CheckStmt (BlockStmt (Span 60 80)
        [LetStmt (Span 66 78) False ''u'' (Type I32 None (Span 69 72))
           (IntLiteral (Span 76 76) None 1)])]"

definition well_formed :: "Instruction \<Rightarrow> bool" where
  "well_formed ins = (has_operand ins \<or> operand ins = 0)"

definition asm_text :: "Instruction \<Rightarrow> string" where
  "asm_text ins =
     opcode_to_string (opcode ins)
       @ (if has_operand ins then '' '' @ to_string (unat (operand ins)) else [])"

definition word_char :: "char \<Rightarrow> bool" where
  "word_char c = (\<not> isspace c \<and> c \<noteq> CHR 0x0A)"

section \<open>End-to-end lowering\<close>

text \<open>
  C2. The source of scenario 4 parses, the program passes the type checker with no error
  recorded, and the compiler returns exactly the fourteen instructions of the table. The
  operands of the two jumps, 13 and 2, are indices into that list: 13 is the \<^verbatim>\<open>RET\<close>
  behind the loop and 2 the first instruction of the loop condition.
\<close>

theorem scenario_4_while_loop:
  "(case parse ''fn main(){ let mut x: i32 = 10; while (x>0){ x = x - 1; } }'' of
      Some (Inr program) \<Rightarrow>
        (case check_program program TypeChecker_new of
           Some (ok, program', tc) \<Rightarrow>
             ok \<and> errors tc = [] \<and>
             compile program' =
               Inr [Instruction PUSH_I32 10, Instruction STORE 0, Instruction LOAD 0,
                    Instruction PUSH_I32 0, Instruction GT_I32 0, Instruction JMP_IF_NOT 13,
                    Instruction LOAD 0, Instruction PUSH_I32 1, Instruction SUB_I32 0,
                    Instruction STORE 0, Instruction LOAD 0, Instruction POP 0,
                    Instruction JMP 2, Instruction RET 0]
         | None \<Rightarrow> False)
    | _ \<Rightarrow> False)"
  by code_simp

section \<open>Jump targets\<close>

lemma binary_opcode_plain:
  "binary_opcode oper = Inr opc \<Longrightarrow> \<not> is_jump opc \<and> opc \<noteq> RET_VAL"
  by (cases oper) (auto simp: is_jump_def)

lemma compile_expression_appends:
  "compile_expression e c = Inr c' \<Longrightarrow>
     \<exists>code. instructions c' = instructions c @ code \<and> plain code
            \<and> function_table c' = function_table c \<and> local_vars c' = local_vars c
            \<and> next_local_index c' = next_local_index c"
  "compile_args es c = Inr c' \<Longrightarrow>
     \<exists>code. instructions c' = instructions c @ code \<and> plain code
            \<and> function_table c' = function_table c \<and> local_vars c' = local_vars c
            \<and> next_local_index c' = next_local_index c"
proof (induction e c and es c arbitrary: c' and c' rule: compile_expression_compile_args.induct)
  case (1 sp t oper l r c)
  show ?case
  proof (cases "oper = Assignment")
    case True
    with "1.prems" obtain c1 where c1: "compile_expression r c = Inr c1"
      by (auto split: sum.splits)
    from "1.IH"(1)[OF True c1] obtain code where
      code: "instructions c1 = instructions c @ code" "plain code"
        "function_table c1 = function_table c" "local_vars c1 = local_vars c"
        "next_local_index c1 = next_local_index c" by blast
    from "1.prems" True c1 obtain sp' t' nm m index where
      "l = Identifier sp' t' nm m" "get_local_index nm c1 = Inr index"
      "c' = emit (Instruction LOAD (of_nat index)) (emit (Instruction STORE (of_nat index)) c1)"
      by (auto split: sum.splits Expr.splits)
    with code show ?thesis
      by (auto simp: emit_def plain_def is_jump_def)
  next
    case False
    with "1.prems" obtain c1 c2 opc where
      c1: "compile_expression l c = Inr c1" and c2: "compile_expression r c1 = Inr c2"
      and opc: "binary_opcode oper = Inr opc" and c': "c' = emit (Instruction0 opc) c2"
      by (auto split: sum.splits)
    from "1.IH"(2)[OF False c1] "1.IH"(3)[OF False c1 c2] binary_opcode_plain[OF opc] c'
    show ?thesis
      by (auto simp: emit_def plain_def Instruction0_def)
  qed
next
  case (2 sp t oper e c)
  then show ?case
    by (auto simp: emit_def plain_def Instruction0_def is_jump_def split: sum.splits UnaryOp.splits)
next
  case (3 sp t v c)
  then show ?case by (auto simp: emit_def plain_def is_jump_def)
next
  case (4 sp t b c)
  then show ?case by (auto simp: emit_def plain_def is_jump_def)
next
  case (5 sp t s c)
  then show ?case by (auto simp: emit_def plain_def is_jump_def Let_def)
next
  case (6 sp t nm m c)
  then show ?case by (auto simp: emit_def plain_def is_jump_def split: sum.splits)
next
  case (7 sp t callee args c)
  from "7.prems" obtain c1 where c1: "compile_args args c = Inr c1"
    by (auto split: sum.splits)
  from "7.prems" c1 obtain n where "c' = emit (Instruction CALL n) c1"
    by (auto split: sum.splits Expr.splits)
  with "7.IH"[OF c1] show ?case
    by (auto simp: emit_def plain_def is_jump_def)
next
  case (8 sp t m e c)
  then show ?case
    by (auto simp: emit_def plain_def Instruction0_def is_jump_def split: sum.splits)
next
  case (9 c)
  then show ?case by (simp add: plain_def)
next
  case (10 a as c)
  from "10.prems" obtain c1 where c1: "compile_args as c = Inr c1"
    and c': "compile_expression a c1 = Inr c'" by (auto split: sum.splits)
  from "10.IH"(1)[OF c1] "10.IH"(2)[OF c1 c'] show ?case
    by (auto simp: plain_def)
qed

lemma extends_refl: "extends c c"
  by (simp add: extends_def)

lemma extends_trans:
  assumes "extends a b" and "extends b c"
  shows "extends a c"
proof -
  let ?n = "length (instructions a)" and ?m = "length (instructions b)"
  from assms have le: "?n \<le> ?m" "?m \<le> length (instructions c)"
    and tk: "take ?n (instructions b) = instructions a" "take ?m (instructions c) = instructions b"
    and ft: "function_table c = function_table a"
    by (simp_all add: extends_def)
  have "take ?n (instructions c) = take ?n (take ?m (instructions c))"
    using le by (simp add: min_absorb1)
  with tk have "take ?n (instructions c) = instructions a" by simp
  with le ft show ?thesis by (simp add: extends_def)
qed

lemma targets_within_mono: "targets_within n code \<Longrightarrow> n \<le> m \<Longrightarrow> targets_within m code"
  by (auto simp: targets_within_def list_all_iff)

lemma plain_targets: "plain code \<Longrightarrow> targets_within n code \<and> no_ret_val code"
  by (auto simp: plain_def targets_within_def no_ret_val_def list_all_iff)

lemma jumps_inv_append:
  "jumps_inv c \<Longrightarrow> instructions c' = instructions c @ code \<Longrightarrow> plain code \<Longrightarrow> jumps_inv c'"
  unfolding jumps_inv_def
  using plain_targets[of code] targets_within_mono[of "length (instructions c)" "instructions c"]
  by (auto simp: targets_within_def no_ret_val_def)

lemma compile_expression_extends:
  assumes "compile_expression e c = Inr c'"
  shows "extends c c'" and "jumps_inv c \<Longrightarrow> jumps_inv c'"
proof -
  from compile_expression_appends(1)[OF assms] obtain code where
    code: "instructions c' = instructions c @ code" "plain code"
      "function_table c' = function_table c" by blast
  then show "extends c c'" by (simp add: extends_def)
  show "jumps_inv c \<Longrightarrow> jumps_inv c'" using code jumps_inv_append by blast
qed

lemma emit_extends: "extends c (emit ins c)"
  by (simp add: extends_def emit_def)

lemma emit_jumps_inv:
  "jumps_inv c \<Longrightarrow> opcode ins \<noteq> RET_VAL
    \<Longrightarrow> (is_jump (opcode ins) \<Longrightarrow> unat (operand ins) \<le> Suc (length (instructions c)))
    \<Longrightarrow> jumps_inv (emit ins c)"
  unfolding jumps_inv_def emit_def
  using targets_within_mono[of "length (instructions c)" "instructions c" "Suc (length (instructions c))"]
  by (auto simp: targets_within_def no_ret_val_def)

lemma emit_instruction_eq:
  "emit_instruction opc n c = (length (instructions c), emit (Instruction opc n) c)"
  by (simp add: emit_instruction_def emit_def)

lemma patch_extends:
  "extends c0 c \<Longrightarrow> length (instructions c0) \<le> i \<Longrightarrow> extends c0 (patch_operand i c)"
  by (simp add: extends_def patch_operand_def)

lemma list_all_update: "list_all P xs \<Longrightarrow> P v \<Longrightarrow> list_all P (xs[i := v])"
  using set_update_subset_insert[of xs i v] by (auto simp: list_all_iff)

lemma unat_of_nat_le: "unat (of_nat n :: size_t) \<le> n"
  by (simp add: unat_of_nat)

lemma patch_jumps_inv: "jumps_inv c \<Longrightarrow> jumps_inv (patch_operand i c)"
proof (cases "i < length (instructions c)")
  case True
  assume inv: "jumps_inv c"
  from True have mem: "instructions c ! i \<in> set (instructions c)" by simp
  with inv have nr: "opcode (instructions c ! i) \<noteq> RET_VAL"
    by (auto simp: jumps_inv_def no_ret_val_def list_all_iff)
  show ?thesis
    using inv nr unat_of_nat_le[of "length (instructions c)"]
    by (auto simp: jumps_inv_def patch_operand_def targets_within_def no_ret_val_def
          intro!: list_all_update)
next
  case False
  assume "jumps_inv c"
  with False show ?thesis by (simp add: jumps_inv_def patch_operand_def not_less list_update_beyond)
qed

lemma extends_length: "extends a b \<Longrightarrow> length (instructions a) \<le> length (instructions b)"
  by (simp add: extends_def)

lemma compile_let_extends:
  assumes "compile_let nm init c = Inr c'"
  shows "extends c c'" and "jumps_inv c \<Longrightarrow> jumps_inv c'"
proof -
  from assms obtain c1 where c1: "compile_expression init c = Inr c1"
    by (auto simp: compile_let_def split: sum.splits)
  define c2 where
    "c2 = (if local_vars c1 nm = None
           then c1\<lparr>local_vars := (local_vars c1)(nm \<mapsto> next_local_index c1),
                   next_local_index := next_local_index c1 + 1\<rparr>
           else c1)"
  have c2: "instructions c2 = instructions c1" "function_table c2 = function_table c1"
    by (simp_all add: c2_def)
  have "\<exists>index. c' = emit (Instruction STORE (of_nat index)) c2"
    using assms c1 by (auto simp: compile_let_def Let_def c2_def split: sum.splits if_splits)
  then obtain index where c': "c' = emit (Instruction STORE (of_nat index)) c2" ..
  from c2 have e12: "extends c1 c2" by (simp add: extends_def)
  from compile_expression_extends(1)[OF c1] e12 emit_extends c'
  show "extends c c'" using extends_trans by blast
  assume "jumps_inv c"
  with compile_expression_extends(2)[OF c1] have "jumps_inv c1" by simp
  with c2 have "jumps_inv c2" by (simp add: jumps_inv_def)
  then show "jumps_inv c'" unfolding c' by (rule emit_jumps_inv) (auto simp: is_jump_def)
qed

lemma compile_statement_extends:
  "compile_statement s c = Inr c' \<Longrightarrow> extends c c' \<and> (jumps_inv c \<longrightarrow> jumps_inv c')"
  "compile_block ss c = Inr c' \<Longrightarrow> extends c c' \<and> (jumps_inv c \<longrightarrow> jumps_inv c')"
proof (induction s c and ss c arbitrary: c' and c' rule: compile_statement_compile_block.induct)
  case (1 sp m nm ty init c)
  then show ?case using compile_let_extends by simp
next
  case (2 sp cond then_branch else_branch c)
  from "2.prems" obtain c1 where c1: "compile_expression cond c = Inr c1"
    by (auto split: sum.splits)
  define c2 where "c2 = emit (Instruction JMP_IF_NOT 0) c1"
  have ei: "emit_instruction JMP_IF_NOT 0 c1 = (length (instructions c1), c2)"
    by (simp add: emit_instruction_eq c2_def)
  from "2.prems" c1 ei obtain c3 where c3: "compile_statement then_branch c2 = Inr c3"
    by (auto split: sum.splits)
  note ih1 = "2.IH"(1)[OF c1 ei[symmetric] c3]
  have e01: "extends c c1" and i01: "jumps_inv c \<Longrightarrow> jumps_inv c1"
    using compile_expression_extends[OF c1] by auto
  have e12: "extends c1 c2" unfolding c2_def by (rule emit_extends)
  have i12: "jumps_inv c1 \<Longrightarrow> jumps_inv c2"
    unfolding c2_def by (rule emit_jumps_inv) auto
  have e03: "extends c c3" using e01 e12 ih1 extends_trans by blast
  have i03: "jumps_inv c \<Longrightarrow> jumps_inv c3" using i01 i12 ih1 by blast
  have le: "length (instructions c) \<le> length (instructions c1)"
    using e01 by (rule extends_length)
  show ?case
  proof (cases else_branch)
    case None
    with "2.prems" c1 ei c3 have c': "c' = patch_operand (length (instructions c1)) c3"
      by simp
    show ?thesis unfolding c'
      using patch_extends[OF e03 le] patch_jumps_inv i03 by blast
  next
    case (Some els)
    define c4 where "c4 = emit (Instruction JMP 0) c3"
    have ej: "emit_instruction JMP 0 c3 = (length (instructions c3), c4)"
      by (simp add: emit_instruction_eq c4_def)
    from "2.prems" c1 ei c3 Some ej obtain c5 where
      c5: "compile_statement els (patch_operand (length (instructions c1)) c4) = Inr c5"
      and c': "c' = patch_operand (length (instructions c3)) c5"
      by (auto split: sum.splits)
    note ih2 = "2.IH"(2)[OF c1 ei[symmetric] c3 Some ej[symmetric] c5]
    have e04: "extends c c4" unfolding c4_def using e03 emit_extends extends_trans by blast
    have i04: "jumps_inv c \<Longrightarrow> jumps_inv c4"
      unfolding c4_def using i03 by (auto intro!: emit_jumps_inv)
    have e0p: "extends c (patch_operand (length (instructions c1)) c4)"
      using patch_extends[OF e04 le] .
    have e05: "extends c c5" using e0p ih2 extends_trans by blast
    have i05: "jumps_inv c \<Longrightarrow> jumps_inv c5" using i04 patch_jumps_inv ih2 by blast
    have le3: "length (instructions c) \<le> length (instructions c3)"
      using e03 by (rule extends_length)
    show ?thesis unfolding c'
      using patch_extends[OF e05 le3] patch_jumps_inv i05 by blast
  qed
next
  case (3 sp cond bdy c)
  from "3.prems" obtain c1 where c1: "compile_expression cond c = Inr c1"
    by (auto simp: Let_def split: sum.splits)
  define c2 where "c2 = emit (Instruction JMP_IF_NOT 0) c1"
  have ei: "emit_instruction JMP_IF_NOT 0 c1 = (length (instructions c1), c2)"
    by (simp add: emit_instruction_eq c2_def)
  from "3.prems" c1 ei obtain c3 where c3: "compile_statement bdy c2 = Inr c3"
    and c': "c' = patch_operand (length (instructions c1))
                    (emit (Instruction JMP (of_nat (length (instructions c)))) c3)"
    by (auto simp: Let_def emit_instruction_eq split: sum.splits)
  note ih = "3.IH"[OF refl c1 ei[symmetric] c3]
  have e01: "extends c c1" and i01: "jumps_inv c \<Longrightarrow> jumps_inv c1"
    using compile_expression_extends[OF c1] by auto
  have e12: "extends c1 c2" unfolding c2_def by (rule emit_extends)
  have i12: "jumps_inv c1 \<Longrightarrow> jumps_inv c2"
    unfolding c2_def by (rule emit_jumps_inv) auto
  have e03: "extends c c3" using e01 e12 ih extends_trans by blast
  have i03: "jumps_inv c \<Longrightarrow> jumps_inv c3" using i01 i12 ih by blast
  have le: "length (instructions c) \<le> length (instructions c1)"
    using e01 by (rule extends_length)
  have le3: "length (instructions c) \<le> length (instructions c3)"
    using e03 by (rule extends_length)
  let ?c4 = "emit (Instruction JMP (of_nat (length (instructions c)))) c3"
  have e04: "extends c ?c4" using e03 emit_extends extends_trans by blast
  have i04: "jumps_inv c \<Longrightarrow> jumps_inv ?c4"
  proof (rule emit_jumps_inv)
    show "jumps_inv c \<Longrightarrow> jumps_inv c3" by (rule i03)
    show "opcode (Instruction JMP (of_nat (length (instructions c)))) \<noteq> RET_VAL" by simp
    show "unat (operand (Instruction JMP (of_nat (length (instructions c)))))
            \<le> Suc (length (instructions c3))"
      using unat_of_nat_le[of "length (instructions c)"] le3 by simp
  qed
  show ?case unfolding c'
    using patch_extends[OF e04 le] patch_jumps_inv i04 by blast
next
  case (4 sp stmts c)
  then show ?case by simp
next
  case (5 sp e c)
  from "5.prems" obtain c1 where c1: "compile_expression e c = Inr c1"
    and c': "c' = emit (Instruction0 POP) c1" by (auto split: sum.splits)
  have e01: "extends c c1" and i01: "jumps_inv c \<Longrightarrow> jumps_inv c1"
    using compile_expression_extends[OF c1] by auto
  show ?case unfolding c'
    using e01 emit_extends extends_trans i01
    by (auto intro!: emit_jumps_inv simp: Instruction0_def is_jump_def)
next
  case (6 c)
  then show ?case by (simp add: extends_refl)
next
  case (7 s ss c)
  from "7.prems" obtain c1 where c1: "compile_statement s c = Inr c1"
    and c': "compile_block ss c1 = Inr c'" by (auto split: sum.splits)
  from "7.IH"(1)[OF c1] "7.IH"(2)[OF c1 c'] show ?case
    using extends_trans by blast
qed

lemma add_params_instructions:
  "instructions (add_params ps c) = instructions c
   \<and> function_table (add_params ps c) = function_table c"
  by (induction ps arbitrary: c) auto

lemma update_function_instructions:
  "update_function nm f c = Inr c' \<Longrightarrow> instructions c' = instructions c"
  by (auto simp: update_function_def split: sum.splits)

lemma targets_inside_within:
  "targets_inside code \<Longrightarrow> targets_within (length code) code"
  by (auto simp: targets_inside_def targets_within_def list_all_iff)

lemma compile_function_region:
  assumes cf: "compile_function func c = Inr c'" and inv: "jumps_inv c"
  shows "\<exists>region. instructions c' = instructions c @ region \<and> ends_with_RET region
           \<and> no_ret_val (instructions c') \<and> targets_inside (instructions c')"
proof -
  define c0 where
    "c0 = add_params (params func) (c\<lparr>local_vars := Map.empty, next_local_index := 0\<rparr>)"
  have i0: "instructions c0 = instructions c"
    by (simp add: c0_def add_params_instructions)
  from cf obtain c1 where c1: "compile_statement (body func) c0 = Inr c1"
    by (auto simp: compile_function_def Let_def c0_def split: sum.splits)
  from inv i0 have "jumps_inv c0" by (simp add: jumps_inv_def)
  with compile_statement_extends(1)[OF c1] have e: "extends c0 c1" and i1: "jumps_inv c1"
    by auto
  from i1 have nr: "no_ret_val (instructions c1)"
    and tw: "targets_within (length (instructions c1)) (instructions c1)"
    by (simp_all add: jumps_inv_def)
  have lastok: "instructions c1 = [] \<or> opcode (last (instructions c1)) \<noteq> RET_VAL"
    using nr by (cases "instructions c1 = []") (auto simp: no_ret_val_def list_all_iff)
  from cf c1 lastok have uf: "update_function (fname func)
      (\<lambda>info. info\<lparr>num_locals := next_local_index (emit (Instruction0 RET) c1)\<rparr>)
      (emit (Instruction0 RET) c1) = Inr c'"
    by (auto simp: compile_function_def Let_def c0_def split: sum.splits)
  have ic': "instructions c' = instructions c1 @ [Instruction RET 0]"
    using update_function_instructions[OF uf] by (simp add: emit_def Instruction0_def)
  from e i0 have pre: "instructions c1 = instructions c @ drop (length (instructions c)) (instructions c1)"
    by (metis append_take_drop_id extends_def)
  let ?region = "drop (length (instructions c)) (instructions c1) @ [Instruction RET 0]"
  have "instructions c' = instructions c @ ?region" using ic' pre by simp
  moreover have "ends_with_RET ?region" by (simp add: ends_with_RET_def)
  moreover have "no_ret_val (instructions c')" using nr ic' by (simp add: no_ret_val_def)
  moreover have "targets_inside (instructions c')"
    using tw ic' by (auto simp: targets_inside_def targets_within_def list_all_iff is_jump_def)
  ultimately show ?thesis by blast
qed

lemma compile_functions_regions:
  assumes "compile_functions fs c = Inr c'"
    and "no_ret_val (instructions c)" and "targets_inside (instructions c)"
  shows "\<exists>regions. instructions c' = instructions c @ concat regions
           \<and> length regions = length fs \<and> list_all ends_with_RET regions
           \<and> no_ret_val (instructions c') \<and> targets_inside (instructions c')"
  using assms
proof (induction fs arbitrary: c)
  case Nil
  then show ?case by (intro exI[of _ "[]"]) simp
next
  case (Cons func fs)
  from Cons.prems(1) obtain c1 c2 where
    c1: "compile_function func c = Inr c1"
    and c2: "update_function (fname func)
               (\<lambda>info. info\<lparr>entry_point := length (instructions c)\<rparr>) c1 = Inr c2"
    and rest: "compile_functions fs c2 = Inr c'"
    by (auto simp: Let_def split: sum.splits)
  have "jumps_inv c"
    using Cons.prems(2,3) targets_inside_within by (simp add: jumps_inv_def)
  from compile_function_region[OF c1 this] obtain region where
    r: "instructions c1 = instructions c @ region" "ends_with_RET region"
       "no_ret_val (instructions c1)" "targets_inside (instructions c1)" by blast
  have i2: "instructions c2 = instructions c1"
    using update_function_instructions[OF c2] .
  from Cons.IH[OF rest] r i2 obtain regions where
    rs: "instructions c' = instructions c2 @ concat regions" "length regions = length fs"
        "list_all ends_with_RET regions" "no_ret_val (instructions c')"
        "targets_inside (instructions c')" by auto
  show ?case
    using r rs i2 by (intro exI[of _ "region # regions"]) simp
qed

text \<open>
  C10. When the compiler returns a code vector, the operand of every jump in it is less
  than the length of the vector, no instruction is \<^verbatim>\<open>RET_VAL\<close>, and the vector is the
  concatenation of one region per function of the program, in order, each of which ends in
  the \<^verbatim>\<open>RET\<close> that \<^verbatim>\<open>compile_function\<close> appends. A forward jump is patched to the
  length of the vector at that moment, which the later \<^verbatim>\<open>RET\<close> makes a valid index.
\<close>

theorem jump_targets_inside_code:
  assumes "compile program = Inr code"
  shows "list_all (\<lambda>ins. is_jump (opcode ins) \<longrightarrow> unat (operand ins) < length code) code
       \<and> list_all (\<lambda>ins. opcode ins \<noteq> RET_VAL) code
       \<and> (\<exists>regions. code = concat regions \<and> length regions = length (items program)
             \<and> list_all ends_with_RET regions)"
proof -
  let ?c = "Compiler_new\<lparr>function_table := register_functions (items program)\<rparr>"
  from assms obtain c' where c': "compile_functions (items program) ?c = Inr c'"
    and code: "code = instructions c'"
    by (auto simp: compile_def compile_state_def split: sum.splits)
  have "no_ret_val (instructions ?c)" "targets_inside (instructions ?c)"
    by (simp_all add: Compiler_new_def no_ret_val_def targets_inside_def)
  from compile_functions_regions[OF c' this] code show ?thesis
    by (auto simp: Compiler_new_def targets_inside_def no_ret_val_def)
qed

lemma if_while_compiled: "compile if_while_program = Inr if_while_code"
  unfolding if_while_program_def if_while_code_def by code_simp

theorem jump_targets_inside_code_witness:
  "compile if_while_program = Inr if_while_code
   \<and> list_all (\<lambda>ins. is_jump (opcode ins) \<longrightarrow> unat (operand ins) < length if_while_code)
        if_while_code
   \<and> list_all (\<lambda>ins. opcode ins \<noteq> RET_VAL) if_while_code
   \<and> (\<exists>regions. if_while_code = concat regions
         \<and> length regions = length (items if_while_program)
         \<and> list_all ends_with_RET regions)"
  using jump_targets_inside_code[OF if_while_compiled] if_while_compiled by simp

section \<open>Expression statements and calls\<close>

lemma compile_block_snoc:
  "compile_block (ss @ [s]) c =
     (case compile_block ss c of Inl e \<Rightarrow> Inl e | Inr c1 \<Rightarrow> compile_statement s c1)"
  by (induction ss arbitrary: c) (auto split: sum.splits)

lemma update_function_instrs:
  "update_function nm f c = Inr c' \<Longrightarrow> instructions c' = instructions c"
  by (auto simp: update_function_def split: sum.splits)

text \<open>
  C5. An expression statement is lowered to the code of its expression followed by
  \<^verbatim>\<open>POP\<close>. This holds for the last statement of a function body as well: when the body
  is a block that ends in an expression statement, the code of the function ends in the code
  of that expression, then \<^verbatim>\<open>POP\<close>, then \<^verbatim>\<open>RET\<close>.
\<close>

theorem expression_statement_popped:
  "(compile_statement (ExprStmt sp e) c = Inr c' \<longrightarrow>
      (\<exists>c1. compile_expression e c = Inr c1 \<and> c' = emit (Instruction POP 0) c1))
   \<and> (body func = BlockStmt bsp (stmts @ [ExprStmt sp e]) \<and> compile_function func c = Inr c''
        \<longrightarrow>
      (\<exists>c1 c2. compile_block stmts
                  (add_params (params func) (c\<lparr>local_vars := Map.empty, next_local_index := 0\<rparr>))
                  = Inr c1
          \<and> compile_expression e c1 = Inr c2
          \<and> instructions c'' = instructions c2 @ [Instruction POP 0, Instruction RET 0]))"
proof (intro conjI impI)
  assume "compile_statement (ExprStmt sp e) c = Inr c'"
  then show "\<exists>c1. compile_expression e c = Inr c1 \<and> c' = emit (Instruction POP 0) c1"
    by (auto simp: Instruction0_def split: sum.splits)
next
  assume h: "body func = BlockStmt bsp (stmts @ [ExprStmt sp e]) \<and> compile_function func c = Inr c''"
  let ?c0 = "add_params (params func) (c\<lparr>local_vars := Map.empty, next_local_index := 0\<rparr>)"
  from h obtain c3 where c3: "compile_block (stmts @ [ExprStmt sp e]) ?c0 = Inr c3"
    by (auto simp: compile_function_def Let_def split: sum.splits)
  then obtain c1 c2 where c1: "compile_block stmts ?c0 = Inr c1"
    and c2: "compile_expression e c1 = Inr c2" and c3': "c3 = emit (Instruction POP 0) c2"
    by (auto simp: compile_block_snoc Instruction0_def split: sum.splits)
  have lst: "\<not> (instructions c3 = [] \<or> opcode (last (instructions c3)) \<noteq> RET_VAL) \<Longrightarrow> False"
    by (simp add: c3' emit_def)
  from h c3 lst have "update_function (fname func)
      (\<lambda>info. info\<lparr>num_locals := next_local_index (emit (Instruction0 RET) c3)\<rparr>)
      (emit (Instruction0 RET) c3) = Inr c''"
    by (auto simp: compile_function_def Let_def split: sum.splits if_splits)
  from update_function_instrs[OF this]
  have "instructions c'' = instructions c2 @ [Instruction POP 0, Instruction RET 0]"
    by (simp add: c3' emit_def Instruction0_def)
  with c1 c2 show "\<exists>c1 c2. compile_block stmts ?c0 = Inr c1 \<and> compile_expression e c1 = Inr c2
      \<and> instructions c'' = instructions c2 @ [Instruction POP 0, Instruction RET 0]"
    by blast
qed

lemma add_compiled:
  "case compile_function add_decl pass_one of
     Inl x \<Rightarrow> False
   | Inr c \<Rightarrow> instructions c = [Instruction LOAD 0, Instruction LOAD 1, Instruction ADD_I32 0,
                                Instruction POP 0, Instruction RET 0]"
  unfolding add_decl_def pass_one_def register_functions_def main_decl_def by code_simp

theorem expression_statement_popped_witness:
  "\<exists>c'' (c2::Compiler). body add_decl = BlockStmt (Span 24 31)
                ([] @ [ExprStmt (Span 26 30)
                   (BinaryExpr (Span 26 30) None Add (Identifier (Span 26 26) None ''x'' False)
                      (Identifier (Span 28 28) None ''y'' False))])
      \<and> compile_function add_decl pass_one = Inr c''
      \<and> instructions c'' = instructions c2 @ [Instruction POP 0, Instruction RET 0]
      \<and> instructions c'' = [Instruction LOAD 0, Instruction LOAD 1, Instruction ADD_I32 0,
                            Instruction POP 0, Instruction RET 0]"
proof -
  from add_compiled obtain c'' where
    c'': "compile_function add_decl pass_one = Inr c''"
    and code: "instructions c'' = [Instruction LOAD 0, Instruction LOAD 1, Instruction ADD_I32 0,
                                   Instruction POP 0, Instruction RET 0]"
    by (auto split: sum.splits)
  have b: "body add_decl = BlockStmt (Span 24 31)
                ([] @ [ExprStmt (Span 26 30)
                   (BinaryExpr (Span 26 30) None Add (Identifier (Span 26 26) None ''x'' False)
                      (Identifier (Span 28 28) None ''y'' False))])"
    by (simp add: add_decl_def)
  from expression_statement_popped[THEN conjunct2, rule_format, OF conjI, OF b c'']
  have "\<exists>c2::Compiler. instructions c'' = instructions c2 @ [Instruction POP 0, Instruction RET 0]"
    by blast
  then obtain c2 :: Compiler where
    "instructions c'' = instructions c2 @ [Instruction POP 0, Instruction RET 0]" ..
  with b c'' code show ?thesis by blast
qed

lemma compile_sequence_snoc:
  "compile_sequence (es @ [e]) c =
     (case compile_sequence es c of Inl x \<Rightarrow> Inl x | Inr c1 \<Rightarrow> compile_expression e c1)"
  by (induction es arbitrary: c) (auto split: sum.splits)

lemma compile_args_reverse: "compile_args args c = compile_sequence (rev args) c"
  by (induction args arbitrary: c) (auto simp: compile_sequence_snoc split: sum.splits)

lemma register_snoc:
  "register_functions (fs @ [f]) = add_function f 0 (register_functions fs)"
  by (simp add: register_functions_def)

lemma register_length: "length (ft_functions (register_functions fs)) = length fs"
  by (induction fs rule: rev_induct)
     (simp_all add: register_snoc add_function_def Let_def,
      simp add: register_functions_def FunctionTable_new_def)

lemma register_last_wins:
  "i < length fs \<Longrightarrow> fname (fs ! i) = nm
     \<Longrightarrow> (\<forall>j. i < j \<and> j < length fs \<longrightarrow> fname (fs ! j) \<noteq> nm)
     \<Longrightarrow> name_to_index (register_functions fs) nm = Some i"
proof (induction fs rule: rev_induct)
  case Nil
  then show ?case by simp
next
  case (snoc f fs)
  show ?case
  proof (cases "i = length fs")
    case True
    with snoc.prems show ?thesis
      by (simp add: register_snoc add_function_def Let_def register_length)
  next
    case False
    with snoc.prems have i: "i < length fs" by simp
    from snoc.prems i have nm: "fname (fs ! i) = nm" by (simp add: nth_append)
    have later: "\<forall>j. i < j \<and> j < length fs \<longrightarrow> fname (fs ! j) \<noteq> nm"
    proof (intro allI impI)
      fix j assume j: "i < j \<and> j < length fs"
      with snoc.prems(3) have "fname ((fs @ [f]) ! j) \<noteq> nm" by simp
      with j show "fname (fs ! j) \<noteq> nm" by (simp add: nth_append)
    qed
    from snoc.prems(3) i have "fname ((fs @ [f]) ! length fs) \<noteq> nm"
      by (elim allE[of _ "length fs"]) simp
    then have "fname f \<noteq> nm" by simp
    with snoc.IH[OF i nm later] show ?thesis
      by (simp add: register_snoc add_function_def Let_def)
  qed
qed

text \<open>
  C6. A call whose callee is an identifier is lowered to the code of its arguments taken
  from the last to the first (\<open>compile_sequence\<close> on the reversed list lowers a list from
  its head on), followed by \<^verbatim>\<open>CALL\<close> with the index that the function table gives for
  the callee's name. After the first pass that index is the position of the function in the
  order of declaration; where several functions carry the name it is the position of the
  last of them.
\<close>

theorem call_lowering:
  "(compile_expression (CallExpr sp t (Identifier sp' t' nm m) args) c = Inr c' \<longrightarrow>
      (\<exists>c1 func_index. compile_sequence (rev args) c = Inr c1
          \<and> get_function_index (function_table c1) nm = Inr func_index
          \<and> c' = emit (Instruction CALL (of_nat func_index)) c1))
   \<and> (i < length fs \<and> fname (fs ! i) = nm
        \<and> (\<forall>j. i < j \<and> j < length fs \<longrightarrow> fname (fs ! j) \<noteq> nm) \<longrightarrow>
      get_function_index (register_functions fs) nm = Inr i)"
proof (intro conjI impI)
  assume "compile_expression (CallExpr sp t (Identifier sp' t' nm m) args) c = Inr c'"
  then show "\<exists>c1 func_index. compile_sequence (rev args) c = Inr c1
          \<and> get_function_index (function_table c1) nm = Inr func_index
          \<and> c' = emit (Instruction CALL (of_nat func_index)) c1"
    by (auto simp: compile_args_reverse split: sum.splits)
next
  assume "i < length fs \<and> fname (fs ! i) = nm
        \<and> (\<forall>j. i < j \<and> j < length fs \<longrightarrow> fname (fs ! j) \<noteq> nm)"
  then show "get_function_index (register_functions fs) nm = Inr i"
    using register_last_wins[of i fs nm] by (simp add: get_function_index_def)
qed

section \<open>Error accumulation of the checker\<close>

lemma grows_refl [simp]: "grows True tc tc"
  by (simp add: grows_def)

lemma grows_error [simp]: "grows False tc (error msg sp tc)"
  by (simp add: grows_def error_def)

lemma grows_trans: "grows True a b \<Longrightarrow> grows ok b c \<Longrightarrow> grows ok a c"
  by (auto simp: grows_def)

lemma grows_then_error: "grows True a b \<Longrightarrow> grows False a (error msg sp b)"
  by (auto simp: grows_def error_def)

lemma grows_both: "grows ok1 a b \<Longrightarrow> grows ok2 b c \<Longrightarrow> grows (ok1 \<and> ok2) a c"
  by (auto simp: grows_def)

lemma grows_cong: "errors a' = errors a \<Longrightarrow> errors b' = errors b \<Longrightarrow> grows ok a b \<Longrightarrow> grows ok a' b'"
  by (simp add: grows_def)

lemma errors_scope [simp]:
  "errors (enter_scope tc) = errors tc" "errors (exit_scope tc) = errors tc"
  "errors (mark_mutably_borrowed nm sp tc) = errors tc"
  by (simp_all add: enter_scope_def exit_scope_def mark_mutably_borrowed_def)

lemma grows_scope [simp]:
  "grows ok (enter_scope a) b = grows ok a b" "grows ok a (exit_scope b) = grows ok a b"
  "grows ok (exit_scope a) b = grows ok a b"
  "grows ok a (mark_mutably_borrowed nm sp b) = grows ok a b"
  by (simp_all add: grows_def)

lemma errors_declare: "declare_variable nm ty m tc = (d, tc') \<Longrightarrow> errors tc' = errors tc"
  by (auto simp: declare_variable_def Let_def split: if_splits)

lemma check_expression_grows:
  "check_expression prog e tc = Some (ok, e', tc') \<Longrightarrow> grows ok tc tc'"
  "check_args prog sp nm ps i es tc = Some (ok, es', tc') \<Longrightarrow> grows ok tc tc'"
proof (induction prog e tc and prog sp nm ps i es tc arbitrary: ok e' tc' and ok es' tc'
       rule: check_expression_check_args.induct)
  case (1 prog sp t v tc)
  then show ?case by auto
next
  case (2 prog sp t b tc)
  then show ?case by auto
next
  case (3 prog sp t s tc)
  then show ?case by auto
next
  case (4 prog sp t nm m tc)
  then show ?case by (auto split: if_splits option.splits)
next
  case (5 prog sp t oper l r tc)
  show ?case
  proof (cases "oper = Assignment")
    case True
    show ?thesis
    proof (cases "\<exists>lsp lt nm lm. l = Identifier lsp lt nm lm")
      case False
      with "5.prems" True show ?thesis by (cases l) auto
    next
      case isid: True
      then obtain lsp lt nm lm where l: "l = Identifier lsp lt nm lm" by blast
      show ?thesis
      proof (cases "lookup_variable nm tc")
        case None
        with "5.prems" True l show ?thesis by auto
      next
        case (Some vi)
        show ?thesis
        proof (cases "kind (vi_type vi) = MutRef \<or> \<not> vi_is_mut vi")
          case True
          with "5.prems" \<open>oper = Assignment\<close> l Some show ?thesis by (auto split: if_splits)
        next
          case False
          with "5.prems" \<open>oper = Assignment\<close> l Some obtain okr r' tc1 where
            r: "check_expression prog r tc = Some (okr, r', tc1)"
            by (auto split: option.splits)
          from False have k: "kind (vi_type vi) \<noteq> MutRef" and mu: "vi_is_mut vi" by auto
          note ih = "5.IH"(1)[OF \<open>oper = Assignment\<close> l Some k _ r]
          from mu have g: "grows okr tc tc1" using ih by simp
          from "5.prems" \<open>oper = Assignment\<close> l Some False r g show ?thesis
            by (auto split: option.splits if_splits intro: grows_then_error)
        qed
      qed
    qed
  next
    case False
    from "5.prems" False obtain okl l' tc1 where
      l: "check_expression prog l tc = Some (okl, l', tc1)" by (auto split: option.splits)
    note g1 = "5.IH"(2)[OF False l]
    show ?thesis
    proof (cases okl)
      case False
      with "5.prems" \<open>oper \<noteq> Assignment\<close> l g1 show ?thesis by auto
    next
      case True
      with "5.prems" \<open>oper \<noteq> Assignment\<close> l obtain okr r' tc2 where
        r: "check_expression prog r tc1 = Some (okr, r', tc2)" by (auto split: option.splits)
      from "5.IH"(3)[OF \<open>oper \<noteq> Assignment\<close> l refl refl _ r] True have g2: "grows okr tc1 tc2" by simp
      from g1 True have g1': "grows True tc tc1" by simp
      have g12: "grows okr tc tc2" using grows_trans[OF g1' g2] .
      show ?thesis
      proof (cases okr)
        case False
        with "5.prems" \<open>oper \<noteq> Assignment\<close> l r True g12 show ?thesis by auto
      next
        case okr: True
        with g12 have g: "grows True tc tc2" by simp
        from "5.prems" \<open>oper \<noteq> Assignment\<close> l r True okr show ?thesis
          using grows_then_error[OF g] g
          by (auto split: option.splits if_splits prod.splits simp del: is_arith.simps is_comparison.simps)
      qed
    qed
  qed
next
  case (6 prog sp t oper e tc)
  from "6.prems" obtain ok1 e1 tc1 where
    e: "check_expression prog e tc = Some (ok1, e1, tc1)" by (auto split: option.splits)
  note g = "6.IH"[OF e]
  show ?case
  proof (cases ok1)
    case False
    with "6.prems" e g show ?thesis by auto
  next
    case True
    with g have g': "grows True tc tc1" by simp
    from "6.prems" e True show ?thesis
      using grows_then_error[OF g'] g'
      by (auto split: option.splits if_splits UnaryOp.splits)
  qed
next
  case (7 prog sp t m e tc)
  from "7.prems" obtain ok1 e1 tc1 where
    e: "check_expression prog e tc = Some (ok1, e1, tc1)" by (auto split: option.splits)
  note g = "7.IH"[OF e]
  show ?case
  proof (cases ok1)
    case False
    with "7.prems" e g show ?thesis by auto
  next
    case True
    with g have g': "grows True tc tc1" by simp
    from "7.prems" e True show ?thesis
      using grows_then_error[OF g'] g'
      by (auto simp: Let_def split: option.splits if_splits bool.splits Expr.splits)
  qed
next
  case (8 prog sp t callee args tc)
  from "8.prems" obtain ok1 c1 tc1 where
    c: "check_expression prog callee tc = Some (ok1, c1, tc1)" by (auto split: option.splits)
  note g = "8.IH"(1)[OF c]
  show ?case
  proof (cases ok1)
    case False
    with "8.prems" c g show ?thesis by auto
  next
    case True
    with g have g': "grows True tc tc1" by simp
    show ?thesis
    proof (cases "\<exists>csp ct nm cm func_decl. c1 = Identifier csp ct nm cm
                      \<and> find_function prog nm = Some func_decl
                      \<and> length args = length (params func_decl)")
      case False
      with "8.prems" c True show ?thesis
        using grows_then_error[OF g']
        by (cases c1) (auto split: option.splits if_splits)
    next
      case ex: True
      then obtain csp ct nm cm func_decl where
        c1: "c1 = Identifier csp ct nm cm" and ff: "find_function prog nm = Some func_decl"
        and len: "length args = length (params func_decl)" by blast
      from "8.prems" c True c1 ff len obtain oka args' tc2 where
        a: "check_args prog sp nm (params func_decl) 0 args tc1 = Some (oka, args', tc2)"
        by (auto split: option.splits)
      have "grows oka tc1 tc2"
        using "8.IH"(2)[OF c refl refl _ c1 ff _ a] True len by simp
      with g' have "grows oka tc tc2" by (rule grows_trans)
      with "8.prems" c True c1 ff len a show ?thesis by (auto split: if_splits)
    qed
  qed
next
  case (9 prog sp nm ps i tc)
  then show ?case by auto
next
  case (10 prog sp nm ps i a as tc)
  from "10.prems" obtain ok1 a1 tc1 where
    a: "check_expression prog a tc = Some (ok1, a1, tc1)" by (auto split: option.splits)
  note g = "10.IH"(1)[OF a]
  show ?case
  proof (cases ok1)
    case False
    with "10.prems" a g show ?thesis by auto
  next
    case True
    with g have g': "grows True tc tc1" by simp
    show ?thesis
    proof (cases "\<exists>aty. expr_type a1 = Some aty \<and> is_assignable (ptype (ps ! i)) aty = Some True")
      case False
      with "10.prems" a True show ?thesis
        using grows_then_error[OF g']
        by (auto split: option.splits if_splits)
    next
      case ex: True
      then obtain aty where aty: "expr_type a1 = Some aty"
        and ass: "is_assignable (ptype (ps ! i)) aty = Some True" by blast
      from "10.prems" a True aty ass obtain okr as' tc2 where
        r: "check_args prog sp nm ps (i + 1) as tc1 = Some (okr, as', tc2)"
        by (auto split: option.splits)
      have "grows okr tc1 tc2" using "10.IH"(2)[OF a refl refl _ aty ass _ r] True by simp
      with g' have "grows okr tc tc2" by (rule grows_trans)
      with "10.prems" a True aty ass r show ?thesis by auto
    qed
  qed
qed

lemma check_statement_grows:
  "check_statement prog s tc = Some (ok, s', tc') \<Longrightarrow> grows ok tc tc'"
  "check_block prog ss tc = Some (ok, ss', tc') \<Longrightarrow> grows ok tc tc'"
proof (induction prog s tc and prog ss tc arbitrary: ok s' tc' and ok ss' tc'
       rule: check_statement_check_block.induct)
  case (1 prog sp m nm ty init tc)
  from "1.prems" obtain ok1 init1 tc1 where
    i: "check_expression prog init tc = Some (ok1, init1, tc1)" by (auto split: option.splits)
  note g = check_expression_grows(1)[OF i]
  show ?case
  proof (cases ok1)
    case False
    with "1.prems" i g show ?thesis by auto
  next
    case True
    with g have g': "grows True tc tc1" by simp
    obtain declared tc2 where
      d: "declare_variable nm (copy_type ty (tspan ty)) m tc1 = (declared, tc2)"
      by (cases "declare_variable nm (copy_type ty (tspan ty)) m tc1")
    have "errors tc2 = errors tc1" using errors_declare[OF d] .
    with g' have g2: "grows True tc tc2" by (simp add: grows_def)
    from "1.prems" i True d show ?thesis
      using grows_then_error[OF g'] grows_then_error[OF g2] g2
      by (auto split: option.splits if_splits)
  qed
next
  case (2 prog sp e tc)
  then show ?case using check_expression_grows(1) by (auto split: option.splits)
next
  case (3 prog sp cond then_branch else_branch tc)
  from "3.prems" obtain ok1 cond1 tc1 where
    c: "check_expression prog cond tc = Some (ok1, cond1, tc1)" by (auto split: option.splits)
  note g = check_expression_grows(1)[OF c]
  show ?case
  proof (cases ok1)
    case False
    with "3.prems" c g show ?thesis by auto
  next
    case True
    with g have g': "grows True tc tc1" by simp
    show ?thesis
    proof (cases "case expr_type cond1 of None \<Rightarrow> True | Some ct \<Rightarrow> kind ct \<noteq> Bool")
      case bad: True
      with "3.prems" c True show ?thesis using grows_then_error[OF g'] by auto
    next
      case good: False
      with "3.prems" c True obtain okt then1 tc2 where
        t: "check_statement prog then_branch (enter_scope tc1) = Some (okt, then1, tc2)"
        by (auto split: option.splits)
      have gt: "grows okt tc1 tc2"
        using "3.IH"(1)[OF c refl refl _ good t] True by simp
      show ?thesis
      proof (cases else_branch)
        case None
        with "3.prems" c True good t have "ok = okt" "tc' = exit_scope tc2" by auto
        with grows_trans[OF g' gt] show ?thesis by simp
      next
        case (Some els)
        with "3.prems" c True good t obtain oke els1 tc3 where
          e: "check_statement prog els (enter_scope (exit_scope tc2)) = Some (oke, els1, tc3)"
          by (auto split: option.splits)
        have ge: "grows oke tc2 tc3"
          using "3.IH"(2)[OF c refl refl _ good t refl refl Some e] True by simp
        from "3.prems" c True good t Some e
        have "ok = (okt \<and> oke)" "tc' = exit_scope tc3" by auto
        with grows_trans[OF g' grows_both[OF gt ge]] show ?thesis by simp
      qed
    qed
  qed
next
  case (4 prog sp cond bdy tc)
  from "4.prems" obtain ok1 cond1 tc1 where
    c: "check_expression prog cond tc = Some (ok1, cond1, tc1)" by (auto split: option.splits)
  note g = check_expression_grows(1)[OF c]
  show ?case
  proof (cases ok1)
    case False
    with "4.prems" c g show ?thesis by auto
  next
    case True
    with g have g': "grows True tc tc1" by simp
    show ?thesis
    proof (cases "case expr_type cond1 of None \<Rightarrow> True | Some ct \<Rightarrow> kind ct \<noteq> Bool")
      case bad: True
      with "4.prems" c True show ?thesis using grows_then_error[OF g'] by auto
    next
      case good: False
      with "4.prems" c True obtain okb bdy1 tc2 where
        b: "check_statement prog bdy (enter_scope tc1) = Some (okb, bdy1, tc2)"
        by (auto split: option.splits)
      have gb: "grows okb tc1 tc2"
        using "4.IH"[OF c refl refl _ good b] True by simp
      from "4.prems" c True good b have "ok = okb" "tc' = exit_scope tc2" by auto
      with grows_trans[OF g' gb] show ?thesis by simp
    qed
  qed
next
  case (5 prog sp stmts tc)
  from "5.prems" obtain ss1 where
    b: "check_block prog stmts (enter_scope tc) = Some (ok, ss1, tc')"
    by (auto split: option.splits)
  from "5.IH"[OF b] show ?case by simp
next
  case (6 prog tc)
  then show ?case by auto
next
  case (7 prog s ss tc)
  from "7.prems" obtain ok1 s1 tc1 where
    s: "check_statement prog s tc = Some (ok1, s1, tc1)" by (auto split: option.splits)
  note g = "7.IH"(1)[OF s]
  show ?case
  proof (cases ok1)
    case False
    with "7.prems" s g show ?thesis by auto
  next
    case True
    with "7.prems" s obtain ss1 where
      r: "check_block prog ss tc1 = Some (ok, ss1, tc')" by (auto split: option.splits)
    from "7.IH"(2)[OF s refl refl _ r] True have g2: "grows ok tc1 tc'" by simp
    from g True have g': "grows True tc tc1" by simp
    show ?thesis using grows_trans[OF g' g2] .
  qed
qed

lemma declare_params_errors:
  "declare_params ps tc = (r, tc') \<Longrightarrow> errors tc' = errors tc"
proof (induction ps arbitrary: tc)
  case Nil
  then show ?case by simp
next
  case (Cons p ps)
  obtain d tc1 where
    d: "declare_variable (pname p) (copy_type (ptype p) (tspan (ptype p))) (param_is_mut p) tc
          = (d, tc1)"
    by (cases "declare_variable (pname p) (copy_type (ptype p) (tspan (ptype p)))
                 (param_is_mut p) tc")
  from errors_declare[OF d] Cons d show ?case by (auto split: if_splits)
qed

lemma check_return_grows:
  assumes "check_return prog ret success bdy tc = Some (ok, bdy', tc')"
  shows "\<exists>ok2. grows ok2 tc tc' \<and> ok = (success \<and> ok2)"
proof (cases "\<exists>bsp stmts esp e. bdy = BlockStmt bsp stmts \<and> stmts \<noteq> [] \<and> last stmts = ExprStmt esp e")
  case False
  with assms have "ok = success" "tc' = tc"
    by (auto simp: check_return_def split: Stmt.splits if_splits)
  then show ?thesis by (intro exI[of _ True]) simp
next
  case True
  then obtain bsp stmts esp e where
    b: "bdy = BlockStmt bsp stmts" "stmts \<noteq> []" "last stmts = ExprStmt esp e" by blast
  from assms b obtain ok1 e1 tc1 where
    c: "check_expression prog e tc = Some (ok1, e1, tc1)"
    by (auto simp: check_return_def split: option.splits)
  note g = check_expression_grows(1)[OF c]
  show ?thesis
  proof (cases ok1)
    case False
    with assms b c have "ok = False" "tc' = tc1" by (auto simp: check_return_def)
    with g False show ?thesis by (intro exI[of _ False]) simp
  next
    case True
    with g have g': "grows True tc tc1" by simp
    from assms b c True obtain et a where
      et: "expr_type e1 = Some et" and a: "is_assignable ret et = Some a"
      by (auto simp: check_return_def split: option.splits)
    show ?thesis
    proof (cases a)
      case True
      with assms b c \<open>ok1\<close> et a have "ok = success" "tc' = tc1"
        by (auto simp: check_return_def)
      with g' show ?thesis by (intro exI[of _ True]) simp
    next
      case False
      with assms b c \<open>ok1\<close> et a have "ok = False"
        "tc' = error ''Function return type mismatch'' esp tc1"
        by (auto simp: check_return_def)
      with grows_then_error[OF g'] show ?thesis by (intro exI[of _ False]) simp
    qed
  qed
qed

lemma check_function_grows:
  assumes "check_function prog func tc = Some (ok, func', tc')"
  shows "grows ok tc tc'"
proof -
  obtain r tc1 where d: "declare_params (params func) (enter_scope tc) = (r, tc1)"
    by (cases "declare_params (params func) (enter_scope tc)")
  have e1: "errors tc1 = errors tc" using declare_params_errors[OF d] by simp
  show ?thesis
  proof (cases r)
    case (Some p)
    with assms d have "ok = False"
      "tc' = error (''Duplicate parameter name: '' @ pname p) (pspan p) tc1"
      by (auto simp: check_function_def)
    with e1 show ?thesis by (simp add: grows_def error_def)
  next
    case None
    with assms d obtain success bdy1 tc2 where
      s: "check_statement prog (body func) tc1 = Some (success, bdy1, tc2)"
      by (auto simp: check_function_def split: option.splits)
    with assms d None obtain bdy2 tc3 where
      r: "check_return prog (return_type func) success bdy1 tc2 = Some (ok, bdy2, tc3)"
      and tc': "tc' = exit_scope tc3"
      by (auto simp: check_function_def split: option.splits)
    from check_statement_grows(1)[OF s] have g1: "grows success tc1 tc2" .
    from check_return_grows[OF r] obtain ok2 where
      g2: "grows ok2 tc2 tc3" and ok: "ok = (success \<and> ok2)" by blast
    from grows_both[OF g1 g2] ok have "grows ok tc1 tc3" by simp
    with e1 tc' show ?thesis by (simp add: grows_def)
  qed
qed

lemma check_functions_grows:
  "check_functions prog fs tc = Some (ok, fs', tc') \<Longrightarrow> grows ok tc tc'"
proof (induction fs arbitrary: tc fs' ok)
  case Nil
  then show ?case by simp
next
  case (Cons func fs)
  from Cons.prems obtain ok1 f1 tc1 where
    f: "check_function prog func tc = Some (ok1, f1, tc1)" by (auto split: option.splits)
  note g = check_function_grows[OF f]
  show ?case
  proof (cases ok1)
    case False
    with Cons.prems f g show ?thesis by auto
  next
    case True
    with Cons.prems f obtain fs1 where
      r: "check_functions prog fs tc1 = Some (ok, fs1, tc')" by (auto split: option.splits)
    from g True have g': "grows True tc tc1" by simp
    show ?thesis using grows_trans[OF g' Cons.IH[OF r]] .
  qed
qed

lemma check_functions_stop:
  "check_functions prog pre tc = Some (True, pre', tc1)
    \<Longrightarrow> check_function prog func tc1 = Some (False, func', tc2)
    \<Longrightarrow> check_functions prog (pre @ func # post) tc = Some (False, pre' @ func' # post, tc2)"
proof (induction pre arbitrary: tc pre')
  case Nil
  then show ?case by simp
next
  case (Cons f pre)
  from Cons.prems(1) obtain f1 tca pre1 where
    f: "check_function prog f tc = Some (True, f1, tca)"
    and r: "check_functions prog pre tca = Some (True, pre1, tc1)"
    and p: "pre' = f1 # pre1"
    by (auto split: option.splits if_splits)
  from Cons.IH[OF r Cons.prems(2)] f p show ?case by simp
qed

text \<open>
  C1, as amended. The loop of \<^verbatim>\<open>check_program\<close> returns \<^verbatim>\<open>false\<close> at the first
  function whose check fails: the functions behind it are returned as they were and the
  state is the one the failing function left, so no error of a later function is recorded.
  Started with an empty error list, \<^verbatim>\<open>check_program\<close> returns \<^verbatim>\<open>true\<close> exactly when
  the error list is still empty at the end. Inside a function, a block stops at its first
  failing statement: the statements behind it are left unchecked, the scope of the block is
  popped, and the failing statement has recorded an error.
\<close>

theorem check_program_stops_at_first_failed_function:
  "(check_functions prog pre tc = Some (True, pre', tc1)
      \<and> check_function prog func tc1 = Some (False, func', tc2) \<longrightarrow>
    check_functions prog (pre @ func # post) tc = Some (False, pre' @ func' # post, tc2))
   \<and> (check_program program tc = Some (ok, program', tc') \<and> errors tc = [] \<longrightarrow>
       (ok \<longleftrightarrow> errors tc' = []))
   \<and> (check_statement prog s tc = Some (False, s', tc1) \<longrightarrow>
       check_block prog (s # ss) tc = Some (False, s' # ss, exit_scope tc1)
       \<and> errors tc1 \<noteq> errors tc)"
proof (intro conjI impI)
  assume "check_functions prog pre tc = Some (True, pre', tc1)
      \<and> check_function prog func tc1 = Some (False, func', tc2)"
  then show "check_functions prog (pre @ func # post) tc = Some (False, pre' @ func' # post, tc2)"
    using check_functions_stop by blast
next
  assume h: "check_program program tc = Some (ok, program', tc') \<and> errors tc = []"
  then obtain ok1 fs1 where
    f: "check_functions (items program) (items program) tc = Some (ok1, fs1, tc')"
    and ok: "ok = (if \<not> ok1 then False else \<not> has_errors tc')"
    by (auto simp: check_program_def split: option.splits if_splits)
  from check_functions_grows[OF f] h have "ok1 \<longleftrightarrow> errors tc' = []"
    by (auto simp: grows_def)
  with ok show "ok \<longleftrightarrow> errors tc' = []" by (auto simp: has_errors_def)
next
  assume h: "check_statement prog s tc = Some (False, s', tc1)"
  then show "check_block prog (s # ss) tc = Some (False, s' # ss, exit_scope tc1)" by simp
  from check_statement_grows(1)[OF h] show "errors tc1 \<noteq> errors tc"
    by (auto simp: grows_def)
qed

section \<open>Mutable borrows\<close>

lemma lookup_in_marked:
  "lookup_in v xs = Some vi \<Longrightarrow>
     \<exists>vi'. lookup_in v (map (mark_scope v sp) xs) = Some vi'
           \<and> kind (vi_type vi') = MutRef \<and> vi_is_mut vi' = vi_is_mut vi"
proof (induction xs)
  case Nil
  then show ?case by simp
next
  case (Cons s xs)
  show ?case
  proof (cases "s v")
    case None
    with Cons show ?thesis by (simp add: mark_scope_def)
  next
    case (Some it)
    with Cons.prems show ?thesis by (auto simp: mark_scope_def copy_type_def)
  qed
qed

lemma mut_borrow_success:
  assumes "check_expression prog (BorrowExpr sp t True (Identifier isp None v m)) tc
             = Some (True, e', tc')"
  shows "find_function prog v = None
       \<and> (\<exists>vi. lookup_variable v tc = Some vi \<and> vi_is_mut vi \<and> kind (vi_type vi) \<noteq> MutRef)
       \<and> tc' = mark_mutably_borrowed v sp tc"
proof -
  have nf: "find_function prog v = None"
  proof (rule ccontr)
    assume "find_function prog v \<noteq> None"
    with assms show False by simp
  qed
  from assms nf obtain vi where vi: "lookup_variable v tc = Some vi"
    by (cases "lookup_variable v tc") auto
  from assms nf vi have "vi_is_mut vi \<and> kind (vi_type vi) \<noteq> MutRef
       \<and> tc' = mark_mutably_borrowed v sp tc"
    by (auto simp: Let_def split: if_splits)
  with nf vi show ?thesis by blast
qed

lemma second_mut_borrow_rejected:
  assumes "find_function prog v = None" and "lookup_variable v tc = Some vi"
    and "kind (vi_type vi) = MutRef" and "vi_is_mut vi"
  shows "check_expression prog (BorrowExpr sp t True (Identifier isp it v m)) tc
           = Some (False,
                   BorrowExpr sp t True (Identifier isp (Some (copy_type (vi_type vi) isp)) v True),
                   error (''Variable already mutably borrowed: '' @ v) sp tc)"
  using assms by (simp add: Let_def)

lemma assignment_rejected:
  assumes "lookup_variable v tc = Some vi" and "kind (vi_type vi) = MutRef"
  shows "check_expression prog (BinaryExpr sp t Assignment (Identifier isp it v m) rhs) tc
           = Some (False, BinaryExpr sp t Assignment (Identifier isp it v m) rhs,
                   error (''Cannot use variable while mutably borrowed: '' @ v) sp tc)"
  using assms by simp

lemma lookup_after_mark:
  assumes "lookup_variable v tc = Some vi"
  shows "\<exists>vi'. lookup_variable v (mark_mutably_borrowed v sp tc) = Some vi'
           \<and> kind (vi_type vi') = MutRef \<and> vi_is_mut vi' = vi_is_mut vi"
  using lookup_in_marked[of v "rev (scopes tc)" vi sp] assms
  by (simp add: lookup_variable_def mark_mutably_borrowed_def rev_map)

lemma entry_kept_refl [simp]: "entry_kept e e"
  by (simp add: entry_kept_def split: option.splits)

lemma entry_kept_trans: "entry_kept a b \<Longrightarrow> entry_kept b c \<Longrightarrow> entry_kept a c"
  by (auto simp: entry_kept_def split: option.splits)

lemma frames_kept_refl [simp]: "frames_kept v fs fs"
  by (simp add: frames_kept_def list_all2_same)

lemma frames_kept_trans:
  "frames_kept v a b \<Longrightarrow> frames_kept v b c \<Longrightarrow> frames_kept v a c"
  unfolding frames_kept_def
  using list_all2_trans[of "\<lambda>f f'. entry_kept (f v) (f' v)" "\<lambda>f f'. entry_kept (f v) (f' v)"
      "\<lambda>f f'. entry_kept (f v) (f' v)" a b c] entry_kept_trans
  by blast

lemma frames_kept_length: "frames_kept v a b \<Longrightarrow> length b = length a"
  by (simp add: frames_kept_def list_all2_lengthD)

lemma frames_kept_nth: "frames_kept v a b \<Longrightarrow> k < length a \<Longrightarrow> entry_kept ((a ! k) v) ((b ! k) v)"
  using list_all2_nthD[of "\<lambda>f f'. entry_kept (f v) (f' v)" a b k]
  by (simp add: frames_kept_def)

lemma frames_kept_mark: "frames_kept v fs (map (mark_scope nm sp) fs)"
  by (auto simp: frames_kept_def list_all2_map2 list_all2_same mark_scope_def entry_kept_def
           split: option.splits)

lemma scopes_error [simp]: "scopes (error msg sp tc) = scopes tc"
  by (simp add: error_def)

lemma scopes_mark [simp]:
  "scopes (mark_mutably_borrowed nm sp tc) = map (mark_scope nm sp) (scopes tc)"
  by (simp add: mark_mutably_borrowed_def)

lemma scopes_enter [simp]: "scopes (enter_scope tc) = scopes tc @ [Map.empty]"
  by (simp add: enter_scope_def)

lemma scopes_exit [simp]: "scopes (exit_scope tc) = butlast (scopes tc)"
  by (simp add: exit_scope_def)

lemma frames_kept_marked:
  "frames_kept v a b \<Longrightarrow> frames_kept v a (map (mark_scope nm sp) b)"
  using frames_kept_trans[OF _ frames_kept_mark] .

lemma check_expression_kept:
  "check_expression prog e tc = Some (ok, e', tc') \<Longrightarrow> frames_kept v (scopes tc) (scopes tc')"
  "check_args prog sp nm ps i es tc = Some (ok, es', tc')
     \<Longrightarrow> frames_kept v (scopes tc) (scopes tc')"
proof (induction prog e tc and prog sp nm ps i es tc arbitrary: ok e' tc' and ok es' tc'
       rule: check_expression_check_args.induct)
  case (1 prog sp t v tc)
  then show ?case by auto
next
  case (2 prog sp t b tc)
  then show ?case by auto
next
  case (3 prog sp t s tc)
  then show ?case by auto
next
  case (4 prog sp t nm m tc)
  then show ?case by (auto split: if_splits option.splits)
next
  case (5 prog sp t oper l r tc)
  show ?case
  proof (cases "oper = Assignment")
    case True
    show ?thesis
    proof (cases "\<exists>lsp lt nm lm. l = Identifier lsp lt nm lm")
      case False
      with "5.prems" True show ?thesis by (cases l) auto
    next
      case isid: True
      then obtain lsp lt nm lm where l: "l = Identifier lsp lt nm lm" by blast
      show ?thesis
      proof (cases "lookup_variable nm tc")
        case None
        with "5.prems" True l show ?thesis by auto
      next
        case (Some vi)
        show ?thesis
        proof (cases "kind (vi_type vi) = MutRef \<or> \<not> vi_is_mut vi")
          case True
          with "5.prems" \<open>oper = Assignment\<close> l Some show ?thesis by (auto split: if_splits)
        next
          case False
          with "5.prems" \<open>oper = Assignment\<close> l Some obtain okr r' tc1 where
            r: "check_expression prog r tc = Some (okr, r', tc1)"
            by (auto split: option.splits)
          from False have k: "kind (vi_type vi) \<noteq> MutRef" and mu: "vi_is_mut vi" by auto
          note ih = "5.IH"(1)[OF \<open>oper = Assignment\<close> l Some k _ r]
          from mu have g: "frames_kept v (scopes tc) (scopes tc1)" using ih by simp
          from "5.prems" \<open>oper = Assignment\<close> l Some False r g show ?thesis
            by (auto split: option.splits if_splits)
        qed
      qed
    qed
  next
    case False
    from "5.prems" False obtain okl l' tc1 where
      l: "check_expression prog l tc = Some (okl, l', tc1)" by (auto split: option.splits)
    note g1 = "5.IH"(2)[OF False l]
    show ?thesis
    proof (cases okl)
      case False
      with "5.prems" \<open>oper \<noteq> Assignment\<close> l g1 show ?thesis by auto
    next
      case True
      with "5.prems" \<open>oper \<noteq> Assignment\<close> l obtain okr r' tc2 where
        r: "check_expression prog r tc1 = Some (okr, r', tc2)" by (auto split: option.splits)
      from "5.IH"(3)[OF \<open>oper \<noteq> Assignment\<close> l refl refl _ r] True
      have g2: "frames_kept v (scopes tc1) (scopes tc2)" by simp
      have g12: "frames_kept v (scopes tc) (scopes tc2)" using frames_kept_trans[OF g1 g2] .
      from "5.prems" \<open>oper \<noteq> Assignment\<close> l r True g12 show ?thesis
        by (auto split: option.splits if_splits prod.splits
                 simp del: is_arith.simps is_comparison.simps)
    qed
  qed
next
  case (6 prog sp t oper e tc)
  from "6.prems" obtain ok1 e1 tc1 where
    e: "check_expression prog e tc = Some (ok1, e1, tc1)" by (auto split: option.splits)
  note g = "6.IH"[OF e]
  from "6.prems" e g show ?case
    by (auto split: option.splits if_splits UnaryOp.splits)
next
  case (7 prog sp t m e tc)
  from "7.prems" obtain ok1 e1 tc1 where
    e: "check_expression prog e tc = Some (ok1, e1, tc1)" by (auto split: option.splits)
  note g = "7.IH"[OF e]
  from "7.prems" e g frames_kept_marked[OF g] show ?case
    by (auto simp: Let_def split: option.splits if_splits bool.splits Expr.splits)
next
  case (8 prog sp t callee args tc)
  from "8.prems" obtain ok1 c1 tc1 where
    c: "check_expression prog callee tc = Some (ok1, c1, tc1)" by (auto split: option.splits)
  note g = "8.IH"(1)[OF c]
  show ?case
  proof (cases ok1)
    case False
    with "8.prems" c g show ?thesis by auto
  next
    case True
    show ?thesis
    proof (cases "\<exists>csp ct nm cm func_decl. c1 = Identifier csp ct nm cm
                      \<and> find_function prog nm = Some func_decl
                      \<and> length args = length (params func_decl)")
      case False
      with "8.prems" c True g show ?thesis
        by (cases c1) (auto split: option.splits if_splits)
    next
      case ex: True
      then obtain csp ct nm cm func_decl where
        c1: "c1 = Identifier csp ct nm cm" and ff: "find_function prog nm = Some func_decl"
        and len: "length args = length (params func_decl)" by blast
      from "8.prems" c True c1 ff len obtain oka args' tc2 where
        a: "check_args prog sp nm (params func_decl) 0 args tc1 = Some (oka, args', tc2)"
        by (auto split: option.splits)
      have "frames_kept v (scopes tc1) (scopes tc2)"
        using "8.IH"(2)[OF c refl refl _ c1 ff _ a] True len by simp
      with g have "frames_kept v (scopes tc) (scopes tc2)" by (rule frames_kept_trans)
      with "8.prems" c True c1 ff len a show ?thesis by (auto split: if_splits)
    qed
  qed
next
  case (9 prog sp nm ps i tc)
  then show ?case by auto
next
  case (10 prog sp nm ps i a as tc)
  from "10.prems" obtain ok1 a1 tc1 where
    a: "check_expression prog a tc = Some (ok1, a1, tc1)" by (auto split: option.splits)
  note g = "10.IH"(1)[OF a]
  show ?case
  proof (cases ok1)
    case False
    with "10.prems" a g show ?thesis by auto
  next
    case True
    show ?thesis
    proof (cases "\<exists>aty. expr_type a1 = Some aty \<and> is_assignable (ptype (ps ! i)) aty = Some True")
      case False
      with "10.prems" a True g show ?thesis
        by (auto split: option.splits if_splits)
    next
      case ex: True
      then obtain aty where aty: "expr_type a1 = Some aty"
        and ass: "is_assignable (ptype (ps ! i)) aty = Some True" by blast
      from "10.prems" a True aty ass obtain okr as' tc2 where
        r: "check_args prog sp nm ps (i + 1) as tc1 = Some (okr, as', tc2)"
        by (auto split: option.splits)
      have "frames_kept v (scopes tc1) (scopes tc2)"
        using "10.IH"(2)[OF a refl refl _ aty ass _ r] True by simp
      with g have "frames_kept v (scopes tc) (scopes tc2)" by (rule frames_kept_trans)
      with "10.prems" a True aty ass r show ?thesis by auto
    qed
  qed
qed

lemma frames_kept_snoc:
  "frames_kept v (a @ [x]) (b @ [y]) \<longleftrightarrow> frames_kept v a b \<and> entry_kept (x v) (y v)"
proof
  assume h: "frames_kept v (a @ [x]) (b @ [y])"
  then have "length a = length b" by (auto dest: frames_kept_length)
  with h show "frames_kept v a b \<and> entry_kept (x v) (y v)"
    by (simp add: frames_kept_def list_all2_append)
next
  assume "frames_kept v a b \<and> entry_kept (x v) (y v)"
  then show "frames_kept v (a @ [x]) (b @ [y])"
    by (auto simp: frames_kept_def intro: list_all2_appendI)
qed

lemma stmt_kept_iff:
  "stmt_kept v False fs fs' \<longleftrightarrow> fs \<noteq> [] \<and> frames_kept v fs fs'"
proof
  assume h: "stmt_kept v False fs fs'"
  then have ne: "fs \<noteq> []" "fs' \<noteq> []" by (auto simp: stmt_kept_def)
  from h have "frames_kept v (butlast fs @ [last fs]) (butlast fs' @ [last fs'])"
    unfolding frames_kept_snoc by (simp add: stmt_kept_def)
  with ne show "fs \<noteq> [] \<and> frames_kept v fs fs'" by simp
next
  assume h: "fs \<noteq> [] \<and> frames_kept v fs fs'"
  then have ne: "fs' \<noteq> []" by (auto dest: frames_kept_length)
  from h ne have "frames_kept v (butlast fs @ [last fs]) (butlast fs' @ [last fs'])" by simp
  then have "frames_kept v (butlast fs) (butlast fs') \<and> entry_kept (last fs v) (last fs' v)"
    unfolding frames_kept_snoc .
  with h ne show "stmt_kept v False fs fs'" by (simp add: stmt_kept_def)
qed

lemma stmt_kept_weaken: "stmt_kept v False fs fs' \<Longrightarrow> stmt_kept v d fs fs'"
  by (simp add: stmt_kept_def)

lemma frames_kept_stmt: "fs \<noteq> [] \<Longrightarrow> frames_kept v fs fs' \<Longrightarrow> stmt_kept v d fs fs'"
  using stmt_kept_iff stmt_kept_weaken by blast

lemma stmt_kept_butlast: "stmt_kept v d fs fs' \<Longrightarrow> frames_kept v (butlast fs) (butlast fs')"
  by (simp add: stmt_kept_def)

lemma kept_then_stmt:
  assumes "frames_kept v a b" and "stmt_kept v d b c"
  shows "stmt_kept v d a c"
proof -
  from assms(2) have ne: "b \<noteq> []" "c \<noteq> []" by (auto simp: stmt_kept_def)
  with assms(1) have na: "a \<noteq> []" by (auto dest: frames_kept_length)
  from frames_kept_stmt[OF na assms(1), of False]
  have ab: "frames_kept v (butlast a) (butlast b)" "entry_kept (last a v) (last b v)"
    by (simp_all add: stmt_kept_def)
  from assms(2) have bc: "frames_kept v (butlast b) (butlast c)" by (simp add: stmt_kept_def)
  have l: "if d \<and> last a v = None then True else entry_kept (last a v) (last c v)"
  proof (cases "d \<and> last a v = None")
    case True
    then show ?thesis by simp
  next
    case False
    show ?thesis
    proof (cases "d \<and> last b v = None")
      case True
      with ab(2) have "last a v = None" by (simp add: entry_kept_def split: option.splits)
      with True False show ?thesis by simp
    next
      case nb: False
      with assms(2) have "entry_kept (last b v) (last c v)" by (auto simp: stmt_kept_def)
      with ab(2) have "entry_kept (last a v) (last c v)" by (rule entry_kept_trans)
      then show ?thesis by simp
    qed
  qed
  from na ne frames_kept_trans[OF ab(1) bc] l show ?thesis by (simp add: stmt_kept_def)
qed

lemma declare_kept:
  assumes "scopes tc \<noteq> []" and "declare_variable nm ty m tc = (declared, tc')"
  shows "stmt_kept v (nm = v) (scopes tc) (scopes tc')"
proof (cases "last (scopes tc) nm")
  case (Some a)
  with assms have "scopes tc' = scopes tc" by (auto simp: declare_variable_def Let_def)
  with assms(1) show ?thesis by (simp add: frames_kept_stmt)
next
  case None
  with assms have s: "scopes tc' = butlast (scopes tc) @ [(last (scopes tc))(nm \<mapsto> VariableInfo ty m)]"
    by (auto simp: declare_variable_def Let_def)
  show ?thesis
  proof (cases "nm = v")
    case True
    with None assms(1) s show ?thesis by (simp add: stmt_kept_def)
  next
    case False
    with assms(1) s show ?thesis by (simp add: stmt_kept_def)
  qed
qed

lemma check_statement_kept:
  "scopes tc \<noteq> [] \<Longrightarrow> check_statement prog s tc = Some (ok, s', tc')
     \<Longrightarrow> stmt_kept v (declares v (CheckStmt s)) (scopes tc) (scopes tc')"
  "scopes tc \<noteq> [] \<Longrightarrow> check_block prog ss tc = Some (ok, ss', tc')
     \<Longrightarrow> frames_kept v (butlast (scopes tc)) (scopes tc')"
proof (induction prog s tc and prog ss tc arbitrary: ok s' tc' and ok ss' tc'
       rule: check_statement_check_block.induct)
  case (1 prog sp m nm ty init tc)
  from "1.prems" obtain ok1 init1 tc1 where
    i: "check_expression prog init tc = Some (ok1, init1, tc1)" by (auto split: option.splits)
  note g = check_expression_kept(1)[OF i, of v]
  from g "1.prems"(1) have ne1: "scopes tc1 \<noteq> []" by (auto dest: frames_kept_length)
  note gs = frames_kept_stmt[OF "1.prems"(1) g, of "nm = v"]
  show ?case
  proof (cases ok1)
    case False
    with "1.prems" i gs show ?thesis by auto
  next
    case True
    obtain declared tc2 where
      d: "declare_variable nm (copy_type ty (tspan ty)) m tc1 = (declared, tc2)"
      by (cases "declare_variable nm (copy_type ty (tspan ty)) m tc1")
    note g2 = kept_then_stmt[OF g declare_kept[OF ne1 d, of v]]
    from "1.prems" i True d gs g2 show ?thesis
      by (auto split: option.splits if_splits)
  qed
next
  case (2 prog sp e tc)
  from "2.prems" obtain e1 where
    e: "check_expression prog e tc = Some (ok, e1, tc')" by (auto split: option.splits)
  from frames_kept_stmt[OF "2.prems"(1) check_expression_kept(1)[OF e, of v]]
  show ?case by simp
next
  case (3 prog sp cond then_branch else_branch tc)
  from "3.prems" obtain ok1 cond1 tc1 where
    c: "check_expression prog cond tc = Some (ok1, cond1, tc1)" by (auto split: option.splits)
  note g = check_expression_kept(1)[OF c, of v]
  note gs = frames_kept_stmt[OF "3.prems"(1) g, of False]
  show ?case
  proof (cases ok1)
    case False
    with "3.prems" c gs show ?thesis by auto
  next
    case True
    show ?thesis
    proof (cases "case expr_type cond1 of None \<Rightarrow> True | Some ct \<Rightarrow> kind ct \<noteq> Bool")
      case bad: True
      with "3.prems" c True gs show ?thesis by auto
    next
      case good: False
      with "3.prems" c True obtain okt then1 tc2 where
        t: "check_statement prog then_branch (enter_scope tc1) = Some (okt, then1, tc2)"
        by (auto split: option.splits)
      have "stmt_kept v (declares v (CheckStmt then_branch)) (scopes (enter_scope tc1)) (scopes tc2)"
        using "3.IH"(1)[OF c refl refl _ good _ t] True by simp
      from stmt_kept_butlast[OF this]
      have gt: "frames_kept v (scopes tc1) (butlast (scopes tc2))" by simp
      show ?thesis
      proof (cases else_branch)
        case None
        with "3.prems" c True good t have "tc' = exit_scope tc2" by auto
        with frames_kept_trans[OF g gt] "3.prems"(1) show ?thesis
          by (simp add: frames_kept_stmt)
      next
        case (Some els)
        with "3.prems" c True good t obtain oke els1 tc3 where
          e: "check_statement prog els (enter_scope (exit_scope tc2)) = Some (oke, els1, tc3)"
          by (auto split: option.splits)
        have "stmt_kept v (declares v (CheckStmt els)) (scopes (enter_scope (exit_scope tc2)))
                (scopes tc3)"
          using "3.IH"(2)[OF c refl refl _ good t refl refl Some _ e] True by simp
        from stmt_kept_butlast[OF this]
        have ge: "frames_kept v (butlast (scopes tc2)) (butlast (scopes tc3))" by simp
        from "3.prems" c True good t Some e have "tc' = exit_scope tc3" by auto
        with frames_kept_trans[OF frames_kept_trans[OF g gt] ge] "3.prems"(1) show ?thesis
          by (simp add: frames_kept_stmt)
      qed
    qed
  qed
next
  case (4 prog sp cond bdy tc)
  from "4.prems" obtain ok1 cond1 tc1 where
    c: "check_expression prog cond tc = Some (ok1, cond1, tc1)" by (auto split: option.splits)
  note g = check_expression_kept(1)[OF c, of v]
  note gs = frames_kept_stmt[OF "4.prems"(1) g, of False]
  show ?case
  proof (cases ok1)
    case False
    with "4.prems" c gs show ?thesis by auto
  next
    case True
    show ?thesis
    proof (cases "case expr_type cond1 of None \<Rightarrow> True | Some ct \<Rightarrow> kind ct \<noteq> Bool")
      case bad: True
      with "4.prems" c True gs show ?thesis by auto
    next
      case good: False
      with "4.prems" c True obtain okb bdy1 tc2 where
        b: "check_statement prog bdy (enter_scope tc1) = Some (okb, bdy1, tc2)"
        by (auto split: option.splits)
      have "stmt_kept v (declares v (CheckStmt bdy)) (scopes (enter_scope tc1)) (scopes tc2)"
        using "4.IH"[OF c refl refl _ good _ b] True by simp
      from stmt_kept_butlast[OF this]
      have gb: "frames_kept v (scopes tc1) (butlast (scopes tc2))" by simp
      from "4.prems" c True good b have "tc' = exit_scope tc2" by auto
      with frames_kept_trans[OF g gb] "4.prems"(1) show ?thesis
        by (simp add: frames_kept_stmt)
    qed
  qed
next
  case (5 prog sp stmts tc)
  from "5.prems" obtain ss1 where
    b: "check_block prog stmts (enter_scope tc) = Some (ok, ss1, tc')"
    by (auto split: option.splits)
  from "5.IH"[OF _ b] have "frames_kept v (scopes tc) (scopes tc')" by simp
  with "5.prems"(1) show ?case by (simp add: frames_kept_stmt)
next
  case (6 prog tc)
  then show ?case by auto
next
  case (7 prog s ss tc)
  from "7.prems" obtain ok1 s1 tc1 where
    s: "check_statement prog s tc = Some (ok1, s1, tc1)" by (auto split: option.splits)
  note g = "7.IH"(1)[OF "7.prems"(1) s]
  then have ne1: "scopes tc1 \<noteq> []" by (simp add: stmt_kept_def)
  note gb = stmt_kept_butlast[OF g]
  show ?case
  proof (cases ok1)
    case False
    with "7.prems" s gb show ?thesis by auto
  next
    case True
    with "7.prems" s obtain ss1 where
      r: "check_block prog ss tc1 = Some (ok, ss1, tc')" by (auto split: option.splits)
    from "7.IH"(2)[OF s refl refl _ ne1 r] True
    have g2: "frames_kept v (butlast (scopes tc1)) (scopes tc')" by simp
    show ?thesis using frames_kept_trans[OF gb g2] .
  qed
qed

lemma lookup_in_kept:
  "list_all2 (\<lambda>f f'. entry_kept (f v) (f' v)) xs ys \<Longrightarrow> lookup_in v xs = Some vi \<Longrightarrow>
     \<exists>vi'. lookup_in v ys = Some vi' \<and> vi_is_mut vi' = vi_is_mut vi
           \<and> (kind (vi_type vi) = MutRef \<longrightarrow> kind (vi_type vi') = MutRef)"
proof (induction rule: list_all2_induct)
  case Nil
  then show ?case by simp
next
  case (Cons x xs y ys)
  show ?case
  proof (cases "x v")
    case None
    with Cons.hyps have "y v = None" by (simp add: entry_kept_def)
    with None Cons show ?thesis by simp
  next
    case (Some a)
    with Cons.hyps obtain b where "y v = Some b" "vi_is_mut b = vi_is_mut a"
      "kind (vi_type a) = MutRef \<longrightarrow> kind (vi_type b) = MutRef"
      by (auto simp: entry_kept_def split: option.splits)
    with Some Cons.prems show ?thesis by (auto simp: copy_type_def)
  qed
qed

lemma borrowed_kept:
  assumes "frames_kept v (scopes tc) (scopes tc')" and "mutably_borrowed v tc"
  shows "mutably_borrowed v tc'"
proof -
  from assms(2) obtain vi where vi: "lookup_in v (rev (scopes tc)) = Some vi"
    "kind (vi_type vi) = MutRef" "vi_is_mut vi"
    by (auto simp: mutably_borrowed_def lookup_variable_def split: option.splits)
  from assms(1) have "list_all2 (\<lambda>f f'. entry_kept (f v) (f' v)) (rev (scopes tc)) (rev (scopes tc'))"
    by (simp add: frames_kept_def list_all2_rev)
  from lookup_in_kept[OF this vi(1)] vi(2,3) show ?thesis
    by (auto simp: mutably_borrowed_def lookup_variable_def)
qed

lemma borrowed_nonempty: "mutably_borrowed v tc \<Longrightarrow> scopes tc \<noteq> []"
  by (auto simp: mutably_borrowed_def lookup_variable_def)

lemma run_step_borrowed:
  assumes "mutably_borrowed v tc" and "run_step prog st tc = Some tc'"
    and "st \<noteq> ExitScope" and "\<not> declares v st"
  shows "mutably_borrowed v tc'"
proof (cases st)
  case (CheckExpr e)
  with assms(2) obtain ok e' where "check_expression prog e tc = Some (ok, e', tc')"
    by (auto split: option.splits)
  from borrowed_kept[OF check_expression_kept(1)[OF this] assms(1)] show ?thesis .
next
  case (CheckStmt s)
  with assms(2) obtain ok s' where c: "check_statement prog s tc = Some (ok, s', tc')"
    by (auto split: option.splits)
  from check_statement_kept(1)[OF borrowed_nonempty[OF assms(1)] c, of v] assms(4) CheckStmt
  have "stmt_kept v False (scopes tc) (scopes tc')" by simp
  then have "frames_kept v (scopes tc) (scopes tc')" by (simp add: stmt_kept_iff)
  from borrowed_kept[OF this assms(1)] show ?thesis .
next
  case (Declare nm ty m)
  with assms(2) have d: "declare_variable nm ty m tc = (fst (declare_variable nm ty m tc), tc')"
    by (cases "declare_variable nm ty m tc") auto
  from declare_kept[OF borrowed_nonempty[OF assms(1)] d, of v] assms(4) Declare
  have "stmt_kept v False (scopes tc) (scopes tc')" by simp
  then have "frames_kept v (scopes tc) (scopes tc')" by (simp add: stmt_kept_iff)
  from borrowed_kept[OF this assms(1)] show ?thesis .
next
  case EnterScope
  with assms(1,2) show ?thesis by (auto simp: mutably_borrowed_def lookup_variable_def)
next
  case ExitScope
  with assms(3) show ?thesis by simp
next
  case (Report msg sp)
  with assms(1,2) show ?thesis by (auto simp: mutably_borrowed_def lookup_variable_def)
qed

lemma run_steps_borrowed:
  "mutably_borrowed v tc \<Longrightarrow> run_steps prog steps tc = Some tc'
     \<Longrightarrow> list_all (\<lambda>st. st \<noteq> ExitScope \<and> \<not> declares v st) steps
     \<Longrightarrow> mutably_borrowed v tc'"
proof (induction steps arbitrary: tc)
  case Nil
  then show ?case by simp
next
  case (Cons st steps)
  from Cons.prems(2) obtain tc1 where
    s: "run_step prog st tc = Some tc1" and r: "run_steps prog steps tc1 = Some tc'"
    by (auto split: option.splits)
  from Cons.prems(3) have "st \<noteq> ExitScope" "\<not> declares v st"
    "list_all (\<lambda>st. st \<noteq> ExitScope \<and> \<not> declares v st) steps" by simp_all
  from Cons.IH[OF run_step_borrowed[OF Cons.prems(1) s this(1,2)] r this(3)] show ?case .
qed

lemma borrowed_after_borrow:
  assumes "check_expression prog (BorrowExpr sp t True (Identifier isp None v m)) tc
             = Some (True, e', tc')"
  shows "find_function prog v = None \<and> mutably_borrowed v tc'"
proof -
  from mut_borrow_success[OF assms] obtain vi where
    nf: "find_function prog v = None" and vi: "lookup_variable v tc = Some vi"
    and mu: "vi_is_mut vi" and tc': "tc' = mark_mutably_borrowed v sp tc" by blast
  from lookup_after_mark[OF vi, of sp] tc' mu nf show ?thesis
    by (auto simp: mutably_borrowed_def)
qed

lemma borrowed_rejects:
  assumes "find_function prog v = None" and "mutably_borrowed v tc"
  shows "\<exists>var_info. lookup_variable v tc = Some var_info \<and> kind (vi_type var_info) = MutRef
           \<and> vi_is_mut var_info
           \<and> check_expression prog (BorrowExpr spb tb True (Identifier ispb itb v mb)) tc
               = Some (False,
                       BorrowExpr spb tb True
                         (Identifier ispb (Some (copy_type (vi_type var_info) ispb)) v True),
                       error (''Variable already mutably borrowed: '' @ v) spb tc)
           \<and> check_expression prog
                 (BinaryExpr spa ta Assignment (Identifier ispa ita v ma) rhs) tc
               = Some (False, BinaryExpr spa ta Assignment (Identifier ispa ita v ma) rhs,
                       error (''Cannot use variable while mutably borrowed: '' @ v) spa tc)"
proof -
  from assms(2) obtain vi where vi: "lookup_variable v tc = Some vi"
    "kind (vi_type vi) = MutRef" "vi_is_mut vi"
    by (auto simp: mutably_borrowed_def split: option.splits)
  from second_mut_borrow_rejected[OF assms(1) vi] assignment_rejected[OF vi(1,2)] vi
  show ?thesis by blast
qed

lemma let_success:
  "check_statement prog (LetStmt lsp lm b lty init) tc = Some (True, sl, tca) \<Longrightarrow>
     \<exists>e' tc'. check_expression prog init tc = Some (True, e', tc')
            \<and> declare_variable b (copy_type lty (tspan lty)) lm tc' = (True, tca)"
  by (auto split: option.splits if_splits prod.splits)

lemma let_failure:
  "check_expression prog init tc = Some (False, e2, tc2) \<Longrightarrow>
     check_statement prog (LetStmt lsp lm b lty init) tc = Some (False, LetStmt lsp lm b lty e2, tc2)"
  by simp

lemma expr_stmt_result:
  "check_expression prog e tc = Some (ok, e2, tc2) \<Longrightarrow>
     check_statement prog (ExprStmt sp e) tc = Some (ok, ExprStmt sp e2, tc2)"
  by simp

lemma let_borrow_steps:
  assumes "check_statement prog
             (LetStmt lsp lm b lty (BorrowExpr sp t True (Identifier isp None v m))) tc
             = Some (True, sl, tca)"
  shows "\<exists>e' tc'. check_expression prog (BorrowExpr sp t True (Identifier isp None v m)) tc
                     = Some (True, e', tc')
           \<and> run_step prog (Declare b (copy_type lty (tspan lty)) lm) tc' = Some tca"
proof -
  from let_success[OF assms] obtain e' tc' where
    "check_expression prog (BorrowExpr sp t True (Identifier isp None v m)) tc
       = Some (True, e', tc')"
    "declare_variable b (copy_type lty (tspan lty)) lm tc' = (True, tca)" by blast
  then have "check_expression prog (BorrowExpr sp t True (Identifier isp None v m)) tc
       = Some (True, e', tc')
     \<and> run_step prog (Declare b (copy_type lty (tspan lty)) lm) tc' = Some tca"
    by (simp only: run_step.simps snd_conv simp_thms)
  then show ?thesis by blast
qed

text \<open>
  C3. After a successful \<^verbatim>\<open>&mut v\<close> on a freshly parsed identifier, a second
  \<^verbatim>\<open>&mut v\<close> is rejected with ``Variable already mutably borrowed'' and an assignment to
  \<^verbatim>\<open>v\<close> with ``Cannot use variable while mutably borrowed''. The first part states it in
  the state the borrow left. The fourth part states it in every state the checker reaches
  from there by steps of \<open>run_steps\<close>, whatever they check, declare or report, as long as
  none of them is an \<^verbatim>\<open>exit_scope\<close> and none declares the name \<open>v\<close> anew in the scope
  it starts in; a statement that opens scopes closes them itself, so a block between the two
  borrows is covered, also one that shadows \<open>v\<close> inside. The fifth part is the same for
  statements: after a successful \<^verbatim>\<open>let b: T = &mut v;\<close> with \<open>b\<close> other than \<open>v\<close>,
  a later \<^verbatim>\<open>let c: T = &mut v;\<close> and a later \<^verbatim>\<open>v = e;\<close> fail with these errors.
  The second and third part: the assignment is rejected in any state in which the type
  stored for \<^verbatim>\<open>v\<close> is of kind \<^verbatim>\<open>MutRef\<close>, and the borrow in any state in which the
  variable found for \<^verbatim>\<open>v\<close> is mutable and its stored type is of that kind.
\<close>

theorem mutable_borrow_errors:
  "(check_expression prog (BorrowExpr sp t True (Identifier isp None v m)) tc
       = Some (True, e', tc') \<longrightarrow>
      (\<exists>e2. check_expression prog (BorrowExpr spb tb True (Identifier ispb itb v mb)) tc'
              = Some (False, e2, error (''Variable already mutably borrowed: '' @ v) spb tc'))
      \<and> check_expression prog (BinaryExpr spa ta Assignment (Identifier ispa ita v ma) rhs) tc'
          = Some (False, BinaryExpr spa ta Assignment (Identifier ispa ita v ma) rhs,
                  error (''Cannot use variable while mutably borrowed: '' @ v) spa tc'))
   \<and> (lookup_variable v tc = Some var_info \<and> kind (vi_type var_info) = MutRef \<longrightarrow>
      check_expression prog (BinaryExpr spa ta Assignment (Identifier ispa ita v ma) rhs) tc
        = Some (False, BinaryExpr spa ta Assignment (Identifier ispa ita v ma) rhs,
                error (''Cannot use variable while mutably borrowed: '' @ v) spa tc))
   \<and> (find_function prog v = None \<and> lookup_variable v tc = Some var_info
        \<and> kind (vi_type var_info) = MutRef \<and> vi_is_mut var_info \<longrightarrow>
      check_expression prog (BorrowExpr spb tb True (Identifier ispb itb v mb)) tc
        = Some (False,
                BorrowExpr spb tb True
                  (Identifier ispb (Some (copy_type (vi_type var_info) ispb)) v True),
                error (''Variable already mutably borrowed: '' @ v) spb tc))
   \<and> (check_expression prog (BorrowExpr sp t True (Identifier isp None v m)) tc
         = Some (True, e', tc')
       \<and> run_steps prog steps tc' = Some tcl
       \<and> list_all (\<lambda>st. st \<noteq> ExitScope \<and> \<not> declares v st) steps \<longrightarrow>
      (\<exists>found. lookup_variable v tcl = Some found \<and> kind (vi_type found) = MutRef
          \<and> vi_is_mut found
          \<and> check_expression prog (BorrowExpr spb tb True (Identifier ispb itb v mb)) tcl
              = Some (False,
                      BorrowExpr spb tb True
                        (Identifier ispb (Some (copy_type (vi_type found) ispb)) v True),
                      error (''Variable already mutably borrowed: '' @ v) spb tcl))
      \<and> check_expression prog (BinaryExpr spa ta Assignment (Identifier ispa ita v ma) rhs) tcl
          = Some (False, BinaryExpr spa ta Assignment (Identifier ispa ita v ma) rhs,
                  error (''Cannot use variable while mutably borrowed: '' @ v) spa tcl))
   \<and> (check_statement prog
         (LetStmt lsp lm b lty (BorrowExpr sp t True (Identifier isp None v m))) tc
         = Some (True, sl, tca)
       \<and> b \<noteq> v
       \<and> run_steps prog steps tca = Some tcl
       \<and> list_all (\<lambda>st. st \<noteq> ExitScope \<and> \<not> declares v st) steps \<longrightarrow>
      (\<exists>e2. check_statement prog
               (LetStmt lspb lmb cn ltyb (BorrowExpr spb tb True (Identifier ispb itb v mb))) tcl
             = Some (False, LetStmt lspb lmb cn ltyb e2,
                     error (''Variable already mutably borrowed: '' @ v) spb tcl))
      \<and> check_statement prog
            (ExprStmt esp (BinaryExpr spa ta Assignment (Identifier ispa ita v ma) rhs)) tcl
          = Some (False,
                  ExprStmt esp (BinaryExpr spa ta Assignment (Identifier ispa ita v ma) rhs),
                  error (''Cannot use variable while mutably borrowed: '' @ v) spa tcl))"
proof (intro conjI impI)
  assume h: "check_expression prog (BorrowExpr sp t True (Identifier isp None v m)) tc
               = Some (True, e', tc')"
  note r = borrowed_rejects[where spb = spb and tb = tb and ispb = ispb and itb = itb and mb = mb and spa = spa and ta = ta and ispa = ispa and ita = ita and ma = ma and rhs = rhs,
      OF borrowed_after_borrow[OF h, THEN conjunct1] borrowed_after_borrow[OF h, THEN conjunct2]]
  from r show "\<exists>e2. check_expression prog (BorrowExpr spb tb True (Identifier ispb itb v mb)) tc'
              = Some (False, e2, error (''Variable already mutably borrowed: '' @ v) spb tc')"
    and "check_expression prog (BinaryExpr spa ta Assignment (Identifier ispa ita v ma) rhs) tc'
          = Some (False, BinaryExpr spa ta Assignment (Identifier ispa ita v ma) rhs,
                  error (''Cannot use variable while mutably borrowed: '' @ v) spa tc')"
    by blast+
next
  assume "lookup_variable v tc = Some var_info \<and> kind (vi_type var_info) = MutRef"
  then show "check_expression prog (BinaryExpr spa ta Assignment (Identifier ispa ita v ma) rhs) tc
        = Some (False, BinaryExpr spa ta Assignment (Identifier ispa ita v ma) rhs,
                error (''Cannot use variable while mutably borrowed: '' @ v) spa tc)"
    using assignment_rejected by blast
next
  assume "find_function prog v = None \<and> lookup_variable v tc = Some var_info
        \<and> kind (vi_type var_info) = MutRef \<and> vi_is_mut var_info"
  then show "check_expression prog (BorrowExpr spb tb True (Identifier ispb itb v mb)) tc
        = Some (False,
                BorrowExpr spb tb True
                  (Identifier ispb (Some (copy_type (vi_type var_info) ispb)) v True),
                error (''Variable already mutably borrowed: '' @ v) spb tc)"
    using second_mut_borrow_rejected by blast
next
  assume h: "check_expression prog (BorrowExpr sp t True (Identifier isp None v m)) tc
         = Some (True, e', tc')
       \<and> run_steps prog steps tc' = Some tcl
       \<and> list_all (\<lambda>st. st \<noteq> ExitScope \<and> \<not> declares v st) steps"
  from h have h1: "check_expression prog (BorrowExpr sp t True (Identifier isp None v m)) tc
         = Some (True, e', tc')"
    and h2: "run_steps prog steps tc' = Some tcl"
    and h3: "list_all (\<lambda>st. st \<noteq> ExitScope \<and> \<not> declares v st) steps" by blast+
  note nf = borrowed_after_borrow[OF h1, THEN conjunct1]
  note b = borrowed_after_borrow[OF h1, THEN conjunct2]
  note bl = run_steps_borrowed[OF b h2 h3]
  from borrowed_rejects[where spb = spb and tb = tb and ispb = ispb and itb = itb and mb = mb and spa = spa and ta = ta and ispa = ispa and ita = ita and ma = ma and rhs = rhs, OF nf bl]
  show "\<exists>found. lookup_variable v tcl = Some found \<and> kind (vi_type found) = MutRef
          \<and> vi_is_mut found
          \<and> check_expression prog (BorrowExpr spb tb True (Identifier ispb itb v mb)) tcl
              = Some (False,
                      BorrowExpr spb tb True
                        (Identifier ispb (Some (copy_type (vi_type found) ispb)) v True),
                      error (''Variable already mutably borrowed: '' @ v) spb tcl)"
    and "check_expression prog (BinaryExpr spa ta Assignment (Identifier ispa ita v ma) rhs) tcl
          = Some (False, BinaryExpr spa ta Assignment (Identifier ispa ita v ma) rhs,
                  error (''Cannot use variable while mutably borrowed: '' @ v) spa tcl)"
    by blast+
next
  assume h: "check_statement prog
         (LetStmt lsp lm b lty (BorrowExpr sp t True (Identifier isp None v m))) tc
         = Some (True, sl, tca)
       \<and> b \<noteq> v
       \<and> run_steps prog steps tca = Some tcl
       \<and> list_all (\<lambda>st. st \<noteq> ExitScope \<and> \<not> declares v st) steps"
  from h have h1: "check_statement prog
         (LetStmt lsp lm b lty (BorrowExpr sp t True (Identifier isp None v m))) tc
         = Some (True, sl, tca)"
    and h2: "b \<noteq> v"
    and h3: "run_steps prog steps tca = Some tcl"
    and h4: "list_all (\<lambda>st. st \<noteq> ExitScope \<and> \<not> declares v st) steps" by blast+
  from let_borrow_steps[OF h1] obtain e1 tc1 where
    e: "check_expression prog (BorrowExpr sp t True (Identifier isp None v m)) tc
          = Some (True, e1, tc1)"
    and d: "run_step prog (Declare b (copy_type lty (tspan lty)) lm) tc1 = Some tca" by blast
  note nf = borrowed_after_borrow[OF e, THEN conjunct1]
  note b1 = borrowed_after_borrow[OF e, THEN conjunct2]
  from h2 have nd: "\<not> declares v (Declare b (copy_type lty (tspan lty)) lm)" by simp
  have ne: "Declare b (copy_type lty (tspan lty)) lm \<noteq> ExitScope" by simp
  note ba = run_step_borrowed[OF b1 d ne nd]
  note bl = run_steps_borrowed[OF ba h3 h4]
  from borrowed_rejects[where spb = spb and tb = tb and ispb = ispb and itb = itb and mb = mb and spa = spa and ta = ta and ispa = ispa and ita = ita and ma = ma and rhs = rhs, OF nf bl]
  obtain found where
    r: "check_expression prog (BorrowExpr spb tb True (Identifier ispb itb v mb)) tcl
              = Some (False,
                      BorrowExpr spb tb True
                        (Identifier ispb (Some (copy_type (vi_type found) ispb)) v True),
                      error (''Variable already mutably borrowed: '' @ v) spb tcl)"
    and a: "check_expression prog (BinaryExpr spa ta Assignment (Identifier ispa ita v ma) rhs) tcl
          = Some (False, BinaryExpr spa ta Assignment (Identifier ispa ita v ma) rhs,
                  error (''Cannot use variable while mutably borrowed: '' @ v) spa tcl)"
    by blast
  from let_failure[OF r] show "\<exists>e2. check_statement prog
               (LetStmt lspb lmb cn ltyb (BorrowExpr spb tb True (Identifier ispb itb v mb))) tcl
             = Some (False, LetStmt lspb lmb cn ltyb e2,
                     error (''Variable already mutably borrowed: '' @ v) spb tcl)" by blast
  show "check_statement prog
            (ExprStmt esp (BinaryExpr spa ta Assignment (Identifier ispa ita v ma) rhs)) tcl
          = Some (False,
                  ExprStmt esp (BinaryExpr spa ta Assignment (Identifier ispa ita v ma) rhs),
                  error (''Cannot use variable while mutably borrowed: '' @ v) spa tcl)"
    using expr_stmt_result[OF a] .
qed

lemma copy_one_reference: "one_reference ty \<Longrightarrow> copy_type ty (tspan ty) = ty"
proof (cases ty)
  case (Type k b sp)
  assume o: "one_reference ty"
  show ?thesis
  proof (cases b)
    case None
    with Type show ?thesis by (simp add: copy_type_def)
  next
    case (Some bt)
    with o Type have "base_type bt = None" by (simp add: one_reference_def)
    then have "Type (kind bt) None (tspan bt) = bt" by (cases bt) simp
    with Type Some show ?thesis by (simp add: copy_type_def)
  qed
qed

lemma entry_kept_marked:
  "entry_kept e e' \<Longrightarrow> (case e of None \<Rightarrow> False | Some vi \<Rightarrow> kind (vi_type vi) = MutRef)
     \<Longrightarrow> (case e' of None \<Rightarrow> False | Some vi \<Rightarrow> kind (vi_type vi) = MutRef)"
  by (auto simp: entry_kept_def split: option.splits)

lemma stmt_kept_nth:
  assumes "stmt_kept v d fs fs'" and "k < length fs" and "(fs ! k) v \<noteq> None"
  shows "length fs' = length fs \<and> entry_kept ((fs ! k) v) ((fs' ! k) v)"
proof -
  from assms(1) have ne: "fs \<noteq> []" "fs' \<noteq> []"
    and bk: "frames_kept v (butlast fs) (butlast fs')" by (auto simp: stmt_kept_def)
  from frames_kept_length[OF bk] ne have len: "length fs' = length fs"
    by (cases fs rule: rev_cases; cases fs' rule: rev_cases) auto
  show ?thesis
  proof (cases "k < length fs - 1")
    case True
    with frames_kept_nth[OF bk, of k] len show ?thesis by (simp add: nth_butlast)
  next
    case False
    with assms(2) have k: "k = length fs - 1" by simp
    with ne len have l: "fs ! k = last fs" "fs' ! k = last fs'" by (simp_all add: last_conv_nth)
    with assms(1,3) have "entry_kept (last fs v) (last fs' v)"
      by (auto simp: stmt_kept_def split: if_splits)
    with l len show ?thesis by simp
  qed
qed

lemma stmt_kept_marked:
  assumes "stmt_kept v d (scopes tc) (scopes tc')" and "frame_marked k v tc"
  shows "frame_marked k v tc'"
proof -
  from assms(2) have k: "k < length (scopes tc)" and n: "(scopes tc ! k) v \<noteq> None"
    and m: "case (scopes tc ! k) v of None \<Rightarrow> False | Some vi \<Rightarrow> kind (vi_type vi) = MutRef"
    by (auto simp: frame_marked_def split: option.splits)
  from stmt_kept_nth[OF assms(1) k n] entry_kept_marked[OF _ m] k show ?thesis
    by (simp add: frame_marked_def)
qed

lemma frames_kept_frame_marked:
  assumes "frames_kept v (scopes tc) (scopes tc')" and "frame_marked k v tc"
  shows "frame_marked k v tc'"
proof -
  from assms(2) have "scopes tc \<noteq> []" by (auto simp: frame_marked_def)
  from stmt_kept_marked[OF frames_kept_stmt[OF this assms(1)] assms(2)] show ?thesis .
qed

lemma run_step_marked:
  assumes "frame_marked k v tc" and "run_step prog st tc = Some tc'"
    and "st = ExitScope \<longrightarrow> k + 1 < length (scopes tc)"
  shows "frame_marked k v tc'"
proof (cases st)
  case (CheckExpr e)
  with assms(2) obtain ok e' where "check_expression prog e tc = Some (ok, e', tc')"
    by (auto split: option.splits)
  from frames_kept_frame_marked[OF check_expression_kept(1)[OF this] assms(1)] show ?thesis .
next
  case (CheckStmt s)
  with assms(2) obtain ok s' where c: "check_statement prog s tc = Some (ok, s', tc')"
    by (auto split: option.splits)
  from assms(1) have ne: "scopes tc \<noteq> []" by (auto simp: frame_marked_def)
  from stmt_kept_marked[OF check_statement_kept(1)[OF ne c] assms(1)] show ?thesis .
next
  case (Declare nm ty m)
  with assms(2) have d: "declare_variable nm ty m tc = (fst (declare_variable nm ty m tc), tc')"
    by (cases "declare_variable nm ty m tc") auto
  from assms(1) have ne: "scopes tc \<noteq> []" by (auto simp: frame_marked_def)
  from stmt_kept_marked[OF declare_kept[OF ne d] assms(1)] show ?thesis .
next
  case EnterScope
  with assms(1,2) show ?thesis by (auto simp: frame_marked_def nth_append)
next
  case ExitScope
  with assms show ?thesis by (auto simp: frame_marked_def nth_butlast)
next
  case (Report msg sp)
  with assms(1,2) show ?thesis by (auto simp: frame_marked_def)
qed

lemma run_steps_marked:
  "frame_marked k v tc \<Longrightarrow> run_steps prog steps tc = Some tc'
     \<Longrightarrow> frame_stays prog k steps tc \<Longrightarrow> frame_marked k v tc'"
proof (induction steps arbitrary: tc)
  case Nil
  then show ?case by simp
next
  case (Cons st steps)
  from Cons.prems(2) obtain tc1 where
    s: "run_step prog st tc = Some tc1" and r: "run_steps prog steps tc1 = Some tc'"
    by (auto split: option.splits)
  from Cons.prems(3) s have g: "st = ExitScope \<longrightarrow> k + 1 < length (scopes tc)"
    and f: "frame_stays prog k steps tc1" by simp_all
  from Cons.IH[OF run_step_marked[OF Cons.prems(1) s g] r f] show ?case .
qed

lemma lookup_in_rev_nth:
  "k < length fs \<Longrightarrow> (fs ! k) v = Some vi \<Longrightarrow> (\<forall>j<length fs. k < j \<longrightarrow> (fs ! j) v = None)
     \<Longrightarrow> lookup_in v (rev fs)
           = Some (VariableInfo (copy_type (vi_type vi) (tspan (vi_type vi))) (vi_is_mut vi))"
proof (induction fs rule: rev_induct)
  case Nil
  then show ?case by simp
next
  case (snoc x xs)
  show ?case
  proof (cases "k = length xs")
    case True
    with snoc.prems(2) show ?thesis by simp
  next
    case False
    with snoc.prems(1) have k: "k < length xs" by simp
    from snoc.prems(3)[rule_format, of "length xs"] k have x: "x v = None" by simp
    from snoc.prems(2) k have n: "(xs ! k) v = Some vi" by (simp add: nth_append)
    have "\<forall>j<length xs. k < j \<longrightarrow> (xs ! j) v = None"
    proof (intro allI impI)
      fix j assume j: "j < length xs" "k < j"
      with snoc.prems(3)[rule_format, of j] show "(xs ! j) v = None" by (simp add: nth_append)
    qed
    from snoc.IH[OF k n this] x show ?thesis by simp
  qed
qed

lemma mark_scope_entry:
  "case f v of
     None \<Rightarrow> mark_scope v sp f = f
   | Some vi \<Rightarrow>
       \<exists>ty'. mark_scope v sp f = f(v \<mapsto> VariableInfo ty' (vi_is_mut vi))
            \<and> kind ty' = MutRef
            \<and> map_option kind (base_type ty') = Some (kind (vi_type vi))
            \<and> (one_reference (vi_type vi) \<longrightarrow> ty' = Type MutRef (Some (vi_type vi)) sp)"
proof (cases "f v")
  case None
  then show ?thesis by (simp add: mark_scope_def)
next
  case (Some vi)
  have "mark_scope v sp f
          = f(v \<mapsto> VariableInfo
                       (Type MutRef (Some (copy_type (vi_type vi) (tspan (vi_type vi)))) sp)
                       (vi_is_mut vi))"
    using Some by (simp add: mark_scope_def)
  moreover have "kind (copy_type (vi_type vi) (tspan (vi_type vi))) = kind (vi_type vi)"
    by (simp add: copy_type_def)
  ultimately have
    "mark_scope v sp f
       = f(v \<mapsto> VariableInfo
                    (Type MutRef (Some (copy_type (vi_type vi) (tspan (vi_type vi)))) sp)
                    (vi_is_mut vi))
     \<and> kind (Type MutRef (Some (copy_type (vi_type vi) (tspan (vi_type vi)))) sp) = MutRef
     \<and> map_option kind
           (base_type (Type MutRef (Some (copy_type (vi_type vi) (tspan (vi_type vi)))) sp))
         = Some (kind (vi_type vi))
     \<and> (one_reference (vi_type vi) \<longrightarrow>
          Type MutRef (Some (copy_type (vi_type vi) (tspan (vi_type vi)))) sp
            = Type MutRef (Some (vi_type vi)) sp)"
    by (simp add: copy_one_reference)
  then have "\<exists>ty'. mark_scope v sp f = f(v \<mapsto> VariableInfo ty' (vi_is_mut vi))
            \<and> kind ty' = MutRef
            \<and> map_option kind (base_type ty') = Some (kind (vi_type vi))
            \<and> (one_reference (vi_type vi) \<longrightarrow> ty' = Type MutRef (Some (vi_type vi)) sp)"
    by (rule exI)
  with Some show ?thesis by simp
qed

text \<open>
  C8, as amended. A successful \<^verbatim>\<open>&mut v\<close> changes the entry of \<open>v\<close> in every scope
  of the stack that holds the name, and nothing else: the stored type becomes a
  \<^verbatim>\<open>MutRef\<close> type whose base is of the kind of the type stored before, and it is the
  \<^verbatim>\<open>MutRef\<close> of the previous type when that has at most one level of reference. Nothing
  releases the mark: whatever steps the checker performs afterwards, \<^verbatim>\<open>exit_scope\<close>
  included, a scope that held \<open>v\<close> at the borrow and has not been popped itself still holds
  it with a type of kind \<^verbatim>\<open>MutRef\<close>. So when the scope of the borrow has been left and
  the \<open>v\<close> of an enclosing scope is the visible one again (no scope above it holds the
  name), an assignment to it is rejected with ``Cannot use variable while mutably borrowed''
  and \<^verbatim>\<open>&mut v\<close> is rejected too.
\<close>

theorem mutable_borrow_never_released:
  "(check_expression prog (BorrowExpr sp t True (Identifier isp None v m)) tc
       = Some (True, e', tc') \<longrightarrow>
      length (scopes tc') = length (scopes tc) \<and> errors tc' = errors tc
      \<and> (\<forall>i<length (scopes tc).
            case (scopes tc ! i) v of
              None \<Rightarrow> scopes tc' ! i = scopes tc ! i
            | Some vi \<Rightarrow>
                \<exists>ty'. scopes tc' ! i = (scopes tc ! i)(v \<mapsto> VariableInfo ty' (vi_is_mut vi))
                     \<and> kind ty' = MutRef
                     \<and> map_option kind (base_type ty') = Some (kind (vi_type vi))
                     \<and> (one_reference (vi_type vi)
                          \<longrightarrow> ty' = Type MutRef (Some (vi_type vi)) sp)))
   \<and> (check_expression prog (BorrowExpr sp t True (Identifier isp None v m)) tc
         = Some (True, e', tc')
       \<and> k < length (scopes tc) \<and> (scopes tc ! k) v \<noteq> None
       \<and> run_steps prog steps tc' = Some tcl
       \<and> frame_stays prog k steps tc' \<longrightarrow>
      k < length (scopes tcl)
      \<and> (\<exists>vi. (scopes tcl ! k) v = Some vi \<and> kind (vi_type vi) = MutRef)
      \<and> ((\<forall>j<length (scopes tcl). k < j \<longrightarrow> (scopes tcl ! j) v = None) \<longrightarrow>
           check_expression prog (BinaryExpr spa ta Assignment (Identifier ispa ita v ma) rhs) tcl
             = Some (False, BinaryExpr spa ta Assignment (Identifier ispa ita v ma) rhs,
                     error (''Cannot use variable while mutably borrowed: '' @ v) spa tcl)
           \<and> (\<exists>e2 tcb. check_expression prog
                           (BorrowExpr spb tb True (Identifier ispb itb v mb)) tcl
                         = Some (False, e2, tcb))))"
proof (intro conjI impI)
  assume h: "check_expression prog (BorrowExpr sp t True (Identifier isp None v m)) tc
               = Some (True, e', tc')"
  from mut_borrow_success[OF h] have tc': "tc' = mark_mutably_borrowed v sp tc" by blast
  then show "length (scopes tc') = length (scopes tc)" by simp
  from tc' show "errors tc' = errors tc" by (simp add: mark_mutably_borrowed_def)
  show "\<forall>i<length (scopes tc).
            case (scopes tc ! i) v of
              None \<Rightarrow> scopes tc' ! i = scopes tc ! i
            | Some vi \<Rightarrow>
                \<exists>ty'. scopes tc' ! i = (scopes tc ! i)(v \<mapsto> VariableInfo ty' (vi_is_mut vi))
                     \<and> kind ty' = MutRef
                     \<and> map_option kind (base_type ty') = Some (kind (vi_type vi))
                     \<and> (one_reference (vi_type vi)
                          \<longrightarrow> ty' = Type MutRef (Some (vi_type vi)) sp)"
  proof (intro allI impI)
    fix i assume i: "i < length (scopes tc)"
    with tc' have e: "scopes tc' ! i = mark_scope v sp (scopes tc ! i)" by simp
    show "case (scopes tc ! i) v of
              None \<Rightarrow> scopes tc' ! i = scopes tc ! i
            | Some vi \<Rightarrow>
                \<exists>ty'. scopes tc' ! i = (scopes tc ! i)(v \<mapsto> VariableInfo ty' (vi_is_mut vi))
                     \<and> kind ty' = MutRef
                     \<and> map_option kind (base_type ty') = Some (kind (vi_type vi))
                     \<and> (one_reference (vi_type vi)
                          \<longrightarrow> ty' = Type MutRef (Some (vi_type vi)) sp)"
      unfolding e by (rule mark_scope_entry)
  qed
next
  assume h: "check_expression prog (BorrowExpr sp t True (Identifier isp None v m)) tc
         = Some (True, e', tc')
       \<and> k < length (scopes tc) \<and> (scopes tc ! k) v \<noteq> None
       \<and> run_steps prog steps tc' = Some tcl
       \<and> frame_stays prog k steps tc'"
  from h have h1: "check_expression prog (BorrowExpr sp t True (Identifier isp None v m)) tc
         = Some (True, e', tc')"
    and h2: "k < length (scopes tc)" and h3: "(scopes tc ! k) v \<noteq> None"
    and h4: "run_steps prog steps tc' = Some tcl"
    and h5: "frame_stays prog k steps tc'" by blast+
  from mut_borrow_success[OF h1] have nf: "find_function prog v = None"
    and tc': "tc' = mark_mutably_borrowed v sp tc" by blast+
  from h2 h3 tc' have "frame_marked k v tc'"
    by (auto simp: frame_marked_def mark_scope_def)
  from run_steps_marked[OF this h4 h5] have fm: "frame_marked k v tcl" .
  then show k: "k < length (scopes tcl)" by (simp add: frame_marked_def)
  from fm obtain vi where vi: "(scopes tcl ! k) v = Some vi" "kind (vi_type vi) = MutRef"
    by (auto simp: frame_marked_def split: option.splits)
  then show "\<exists>vi. (scopes tcl ! k) v = Some vi \<and> kind (vi_type vi) = MutRef" by blast
  assume vis: "\<forall>j<length (scopes tcl). k < j \<longrightarrow> (scopes tcl ! j) v = None"
  from lookup_in_rev_nth[OF k vi(1) vis]
  have l: "lookup_variable v tcl
             = Some (VariableInfo (copy_type (vi_type vi) (tspan (vi_type vi))) (vi_is_mut vi))"
    by (simp add: lookup_variable_def)
  have km: "kind (vi_type (VariableInfo (copy_type (vi_type vi) (tspan (vi_type vi)))
              (vi_is_mut vi))) = MutRef"
    using vi(2) by (simp add: copy_type_def)
  from assignment_rejected[OF l km]
  show "check_expression prog (BinaryExpr spa ta Assignment (Identifier ispa ita v ma) rhs) tcl
             = Some (False, BinaryExpr spa ta Assignment (Identifier ispa ita v ma) rhs,
                     error (''Cannot use variable while mutably borrowed: '' @ v) spa tcl)" .
  show "\<exists>e2 tcb. check_expression prog
                           (BorrowExpr spb tb True (Identifier ispb itb v mb)) tcl
                         = Some (False, e2, tcb)"
    using nf l km by (cases "vi_is_mut vi") (simp_all add: Let_def)
qed

section \<open>The checker and the compiler on sample programs\<close>

lemma call_compiled:
  "case compile_expression
          (CallExpr (Span 55 63) None (Identifier (Span 55 55) None ''add'' False)
             [IntLiteral (Span 59 59) None 1, IntLiteral (Span 61 61) None 2]) pass_one of
     Inl x \<Rightarrow> False
   | Inr c \<Rightarrow> instructions c = [Instruction PUSH_I32 2, Instruction PUSH_I32 1, Instruction CALL 0]"
  unfolding add_decl_def pass_one_def register_functions_def main_decl_def by code_simp

theorem call_lowering_witness:
  "\<exists>c' (c1::Compiler) func_index.
      compile_expression
        (CallExpr (Span 55 63) None (Identifier (Span 55 55) None ''add'' False)
           [IntLiteral (Span 59 59) None 1, IntLiteral (Span 61 61) None 2]) pass_one = Inr c'
      \<and> compile_sequence (rev [IntLiteral (Span 59 59) None 1, IntLiteral (Span 61 61) None 2])
            pass_one = Inr c1
      \<and> c' = emit (Instruction CALL (of_nat func_index)) c1
      \<and> instructions c' = [Instruction PUSH_I32 2, Instruction PUSH_I32 1, Instruction CALL 0]
      \<and> (0::nat) < length [add_decl, main_decl] \<and> fname ([add_decl, main_decl] ! 0) = ''add''
      \<and> (\<forall>j. 0 < j \<and> j < length [add_decl, main_decl]
               \<longrightarrow> fname ([add_decl, main_decl] ! j) \<noteq> ''add'')
      \<and> get_function_index (register_functions [add_decl, main_decl]) ''add'' = Inr 0"
proof -
  from call_compiled obtain c' where
    c': "compile_expression
          (CallExpr (Span 55 63) None (Identifier (Span 55 55) None ''add'' False)
             [IntLiteral (Span 59 59) None 1, IntLiteral (Span 61 61) None 2]) pass_one = Inr c'"
    and code: "instructions c' = [Instruction PUSH_I32 2, Instruction PUSH_I32 1, Instruction CALL 0]"
    by (auto split: sum.splits)
  from call_lowering[THEN conjunct1, rule_format, OF c']
  obtain c1 :: Compiler and func_index where
    s: "compile_sequence (rev [IntLiteral (Span 59 59) None 1, IntLiteral (Span 61 61) None 2])
            pass_one = Inr c1"
    and e: "c' = emit (Instruction CALL (of_nat func_index)) c1" by blast
  have h: "(0::nat) < length [add_decl, main_decl] \<and> fname ([add_decl, main_decl] ! 0) = ''add''
      \<and> (\<forall>j. 0 < j \<and> j < length [add_decl, main_decl]
               \<longrightarrow> fname ([add_decl, main_decl] ! j) \<noteq> ''add'')"
    by (auto simp: add_decl_def main_decl_def less_Suc_eq)
  from call_lowering[THEN conjunct2, rule_format, OF h]
  have "get_function_index (register_functions [add_decl, main_decl]) ''add'' = Inr 0" .
  with c' code s e h show ?thesis by blast
qed

lemma f_fails:
  "case check_function [f_decl, g_decl] f_decl TypeChecker_new of
     Some (ok, func', tc) \<Rightarrow> \<not> ok | None \<Rightarrow> False"
  unfolding f_decl_def g_decl_def by code_simp

lemma let_a_fails:
  "case check_statement [f_decl, g_decl]
          (LetStmt (Span 11 26) False ''a'' (Type I32 None (Span 15 18))
             (BoolLiteral (Span 21 25) None True)) (enter_scope TypeChecker_new) of
     Some (ok, s', tc) \<Rightarrow> \<not> ok | None \<Rightarrow> False"
  unfolding f_decl_def g_decl_def by code_simp

lemma fg_checked:
  "case check_program (Program (Span 0 57) [f_decl, g_decl]) TypeChecker_new of
     Some (ok, program', tc) \<Rightarrow> \<not> ok | None \<Rightarrow> False"
  unfolding f_decl_def g_decl_def by code_simp

theorem check_program_stops_at_first_failed_function_witness:
  "\<exists>func' tc2 program' tc' s' tc1.
      check_statement [f_decl, g_decl]
          (LetStmt (Span 11 26) False ''a'' (Type I32 None (Span 15 18))
             (BoolLiteral (Span 21 25) None True)) (enter_scope TypeChecker_new)
        = Some (False, s', tc1)
      \<and> check_block [f_decl, g_decl]
            (LetStmt (Span 11 26) False ''a'' (Type I32 None (Span 15 18))
               (BoolLiteral (Span 21 25) None True) # []) (enter_scope TypeChecker_new)
          = Some (False, s' # [], exit_scope tc1)
      \<and> errors tc1 \<noteq> errors (enter_scope TypeChecker_new)
      \<and> check_functions [f_decl, g_decl] [] TypeChecker_new = Some (True, [], TypeChecker_new)
      \<and> check_function [f_decl, g_decl] f_decl TypeChecker_new = Some (False, func', tc2)
      \<and> check_functions [f_decl, g_decl] ([] @ f_decl # [g_decl]) TypeChecker_new
          = Some (False, [] @ func' # [g_decl], tc2)
      \<and> check_program (Program (Span 0 57) [f_decl, g_decl]) TypeChecker_new
          = Some (False, program', tc')
      \<and> errors TypeChecker_new = [] \<and> (False \<longleftrightarrow> errors tc' = [])"
proof -
  from f_fails obtain func' tc2 where
    f: "check_function [f_decl, g_decl] f_decl TypeChecker_new = Some (False, func', tc2)"
    by (auto split: option.splits)
  from fg_checked obtain program' tc' where
    p: "check_program (Program (Span 0 57) [f_decl, g_decl]) TypeChecker_new
          = Some (False, program', tc')"
    by (auto split: option.splits)
  have n: "check_functions [f_decl, g_decl] [] TypeChecker_new = Some (True, [], TypeChecker_new)"
    by simp
  have e: "errors TypeChecker_new = []" by (simp add: TypeChecker_new_def)
  from check_program_stops_at_first_failed_function[THEN conjunct1, rule_format, OF conjI, OF n f]
  have s: "check_functions [f_decl, g_decl] ([] @ f_decl # [g_decl]) TypeChecker_new
          = Some (False, [] @ func' # [g_decl], tc2)" .
  from check_program_stops_at_first_failed_function[THEN conjunct2, THEN conjunct1, rule_format,
      OF conjI, OF p e]
  have i: "False \<longleftrightarrow> errors tc' = []" .
  from let_a_fails obtain s' tc1 where
    l: "check_statement [f_decl, g_decl]
          (LetStmt (Span 11 26) False ''a'' (Type I32 None (Span 15 18))
             (BoolLiteral (Span 21 25) None True)) (enter_scope TypeChecker_new)
        = Some (False, s', tc1)"
    by (auto split: option.splits)
  from check_program_stops_at_first_failed_function[THEN conjunct2, THEN conjunct2, rule_format,
      OF l, of "[]"]
  have b: "check_block [f_decl, g_decl]
            (LetStmt (Span 11 26) False ''a'' (Type I32 None (Span 15 18))
               (BoolLiteral (Span 21 25) None True) # []) (enter_scope TypeChecker_new)
          = Some (False, s' # [], exit_scope tc1)
      \<and> errors tc1 \<noteq> errors (enter_scope TypeChecker_new)" .
  from n f s p e i l b show ?thesis by blast
qed

text \<open>
  C1 as stated fails. Both functions of this source have an ill-typed \<^verbatim>\<open>let\<close>, and the
  second one, checked by itself, records its error; \<^verbatim>\<open>check_program\<close> records the error
  of the first only and leaves the second function as the parser built it.
\<close>

theorem later_function_not_checked:
  "(case parse ''fn f(){ let a: i32 = true; } fn g(){ let b: i32 = true; }'' of
      Some (Inr program) \<Rightarrow>
        (case check_program program TypeChecker_new of
           Some (ok, program', tc) \<Rightarrow>
             \<not> ok \<and> errors tc = [''Type error at 11:26: Type mismatch in let binding'']
             \<and> items program' ! 1 = g_decl
             \<and> (case check_function (items program) g_decl TypeChecker_new of
                  Some (ok2, g', tc2) \<Rightarrow>
                    \<not> ok2
                    \<and> errors tc2 = [''Type error at 40:55: Type mismatch in let binding'']
                | None \<Rightarrow> False)
         | None \<Rightarrow> False)
    | _ \<Rightarrow> False)"
  unfolding g_decl_def by code_simp

lemma borrow_v_checked:
  "case check_expression []
          (BorrowExpr (Span 52 58) None True (Identifier (Span 57 57) None ''v'' False)) outer_v of
     Some (ok, e', tc') \<Rightarrow> ok | None \<Rightarrow> False"
  unfolding outer_v_def by code_simp

lemma later_steps_run:
  "case run_steps [] later_steps (mark_mutably_borrowed ''v'' (Span 52 58) outer_v) of
     Some tcl \<Rightarrow> True | None \<Rightarrow> False"
  unfolding later_steps_def outer_v_def by code_simp

lemma later_steps_allowed:
  "list_all (\<lambda>st. st \<noteq> ExitScope \<and> \<not> declares ''v'' st) later_steps"
  by (simp add: later_steps_def)

lemma let_b_checked:
  "case check_statement []
          (LetStmt (Span 36 58) False ''b''
             (Type MutRef (Some (Type I32 None (Span 45 48))) (Span 40 48))
             (BorrowExpr (Span 52 58) None True (Identifier (Span 57 57) None ''v'' False)))
          outer_v of
     Some (ok, s', tc') \<Rightarrow> ok | None \<Rightarrow> False"
  unfolding outer_v_def by code_simp

theorem mutable_borrow_errors_witness:
  "\<exists>e' tc' e2 var_info tcl found sl tca e3.
      check_expression []
        (BorrowExpr (Span 52 58) None True (Identifier (Span 57 57) None ''v'' False)) outer_v
        = Some (True, e', tc')
      \<and> check_expression []
          (BorrowExpr (Span 70 76) None True (Identifier (Span 75 75) None ''v'' False)) tc'
          = Some (False, e2, error (''Variable already mutably borrowed: '' @ ''v'') (Span 70 76) tc')
      \<and> check_expression []
          (BinaryExpr (Span 62 67) None Assignment (Identifier (Span 62 62) None ''v'' False)
             (IntLiteral (Span 66 66) None 2)) tc'
          = Some (False,
                  BinaryExpr (Span 62 67) None Assignment (Identifier (Span 62 62) None ''v'' False)
                    (IntLiteral (Span 66 66) None 2),
                  error (''Cannot use variable while mutably borrowed: '' @ ''v'') (Span 62 67) tc')
      \<and> find_function [] ''v'' = None
      \<and> lookup_variable ''v'' tc' = Some var_info \<and> kind (vi_type var_info) = MutRef
      \<and> vi_is_mut var_info
      \<and> check_expression []
          (BorrowExpr (Span 70 76) None True (Identifier (Span 75 75) None ''v'' False)) tc'
          = Some (False,
                  BorrowExpr (Span 70 76) None True
                    (Identifier (Span 75 75) (Some (copy_type (vi_type var_info) (Span 75 75)))
                       ''v'' True),
                  error (''Variable already mutably borrowed: '' @ ''v'') (Span 70 76) tc')
      \<and> run_steps [] later_steps tc' = Some tcl
      \<and> list_all (\<lambda>st. st \<noteq> ExitScope \<and> \<not> declares ''v'' st) later_steps
      \<and> lookup_variable ''v'' tcl = Some found \<and> kind (vi_type found) = MutRef
      \<and> vi_is_mut found
      \<and> check_expression []
          (BorrowExpr (Span 70 76) None True (Identifier (Span 75 75) None ''v'' False)) tcl
          = Some (False,
                  BorrowExpr (Span 70 76) None True
                    (Identifier (Span 75 75) (Some (copy_type (vi_type found) (Span 75 75)))
                       ''v'' True),
                  error (''Variable already mutably borrowed: '' @ ''v'') (Span 70 76) tcl)
      \<and> check_statement []
          (LetStmt (Span 36 58) False ''b''
             (Type MutRef (Some (Type I32 None (Span 45 48))) (Span 40 48))
             (BorrowExpr (Span 52 58) None True (Identifier (Span 57 57) None ''v'' False)))
          outer_v
          = Some (True, sl, tca)
      \<and> ''b'' \<noteq> ''v''
      \<and> run_steps [] [] tca = Some tca
      \<and> check_statement []
          (LetStmt (Span 62 84) False ''c''
             (Type MutRef (Some (Type I32 None (Span 71 74))) (Span 66 74))
             (BorrowExpr (Span 70 76) None True (Identifier (Span 75 75) None ''v'' False))) tca
          = Some (False,
                  LetStmt (Span 62 84) False ''c''
                    (Type MutRef (Some (Type I32 None (Span 71 74))) (Span 66 74)) e3,
                  error (''Variable already mutably borrowed: '' @ ''v'') (Span 70 76) tca)
      \<and> check_statement []
          (ExprStmt (Span 62 68)
             (BinaryExpr (Span 62 67) None Assignment (Identifier (Span 62 62) None ''v'' False)
                (IntLiteral (Span 66 66) None 2))) tca
          = Some (False,
                  ExprStmt (Span 62 68)
                    (BinaryExpr (Span 62 67) None Assignment
                       (Identifier (Span 62 62) None ''v'' False)
                       (IntLiteral (Span 66 66) None 2)),
                  error (''Cannot use variable while mutably borrowed: '' @ ''v'') (Span 62 67) tca)"
proof -
  from borrow_v_checked obtain e' tc' where
    h: "check_expression []
          (BorrowExpr (Span 52 58) None True (Identifier (Span 57 57) None ''v'' False)) outer_v
          = Some (True, e', tc')"
    by (auto split: option.splits)
  from mut_borrow_success[OF h] obtain vi where
    vi: "lookup_variable ''v'' outer_v = Some vi" "vi_is_mut vi"
    and tc': "tc' = mark_mutably_borrowed ''v'' (Span 52 58) outer_v"
    by blast
  from later_steps_run tc' obtain tcl where r: "run_steps [] later_steps tc' = Some tcl"
    by (auto split: option.splits)
  from let_b_checked obtain sl tca where
    l: "check_statement []
          (LetStmt (Span 36 58) False ''b''
             (Type MutRef (Some (Type I32 None (Span 45 48))) (Span 40 48))
             (BorrowExpr (Span 52 58) None True (Identifier (Span 57 57) None ''v'' False)))
          outer_v
          = Some (True, sl, tca)"
    by (auto split: option.splits)
  have n: "''b'' \<noteq> ''v''" by simp
  have r0: "run_steps [] [] tca = Some tca" by simp
  have a0: "list_all (\<lambda>st. st \<noteq> ExitScope \<and> \<not> declares ''v'' st) []" by simp
  note t = mutable_borrow_errors[where prog = "[]" and v = "''v''" and tc = outer_v
      and sp = "Span 52 58" and t = None and isp = "Span 57 57" and m = False
      and e' = e' and tc' = tc' and spb = "Span 70 76" and tb = None and ispb = "Span 75 75"
      and itb = None and mb = False and spa = "Span 62 67" and ta = None and ispa = "Span 62 62"
      and ita = None and ma = False and rhs = "IntLiteral (Span 66 66) None 2"]
  from t[THEN conjunct1, rule_format, OF h] obtain e2 where
    b: "check_expression []
          (BorrowExpr (Span 70 76) None True (Identifier (Span 75 75) None ''v'' False)) tc'
          = Some (False, e2, error (''Variable already mutably borrowed: '' @ ''v'') (Span 70 76) tc')"
    and a: "check_expression []
          (BinaryExpr (Span 62 67) None Assignment (Identifier (Span 62 62) None ''v'' False)
             (IntLiteral (Span 66 66) None 2)) tc'
          = Some (False,
                  BinaryExpr (Span 62 67) None Assignment (Identifier (Span 62 62) None ''v'' False)
                    (IntLiteral (Span 66 66) None 2),
                  error (''Cannot use variable while mutably borrowed: '' @ ''v'') (Span 62 67) tc')"
    by blast
  from lookup_after_mark[OF vi(1), of "Span 52 58"] tc' vi(2) obtain var_info where
    lk: "lookup_variable ''v'' tc' = Some var_info" "kind (vi_type var_info) = MutRef"
       "vi_is_mut var_info" by auto
  have nf: "find_function [] ''v'' = None" by (simp add: find_function_def)
  from mutable_borrow_errors[where prog = "[]" and v = "''v''" and tc = tc'
      and var_info = var_info and spb = "Span 70 76" and tb = None and ispb = "Span 75 75"
      and itb = None and mb = False, THEN conjunct2, THEN conjunct2, THEN conjunct1, rule_format,
      OF conjI, OF nf conjI, OF lk(1) conjI, OF lk(2) lk(3)]
  have g: "check_expression []
          (BorrowExpr (Span 70 76) None True (Identifier (Span 75 75) None ''v'' False)) tc'
          = Some (False,
                  BorrowExpr (Span 70 76) None True
                    (Identifier (Span 75 75) (Some (copy_type (vi_type var_info) (Span 75 75)))
                       ''v'' True),
                  error (''Variable already mutably borrowed: '' @ ''v'') (Span 70 76) tc')" .
  from mutable_borrow_errors[where prog = "[]" and v = "''v''" and tc = outer_v
      and sp = "Span 52 58" and t = None and isp = "Span 57 57" and m = False
      and e' = e' and tc' = tc' and steps = later_steps and tcl = tcl
      and spb = "Span 70 76" and tb = None and ispb = "Span 75 75"
      and itb = None and mb = False,
      THEN conjunct2, THEN conjunct2, THEN conjunct2, THEN conjunct1, rule_format,
      OF conjI, OF h conjI, OF r later_steps_allowed]
  obtain found where
    f: "lookup_variable ''v'' tcl = Some found" "kind (vi_type found) = MutRef"
       "vi_is_mut found"
       "check_expression []
          (BorrowExpr (Span 70 76) None True (Identifier (Span 75 75) None ''v'' False)) tcl
          = Some (False,
                  BorrowExpr (Span 70 76) None True
                    (Identifier (Span 75 75) (Some (copy_type (vi_type found) (Span 75 75)))
                       ''v'' True),
                  error (''Variable already mutably borrowed: '' @ ''v'') (Span 70 76) tcl)"
    by blast
  from mutable_borrow_errors[where prog = "[]" and v = "''v''" and tc = outer_v
      and sp = "Span 52 58" and t = None and isp = "Span 57 57" and m = False
      and lsp = "Span 36 58" and lm = False and b = "''b''"
      and lty = "Type MutRef (Some (Type I32 None (Span 45 48))) (Span 40 48)"
      and sl = sl and tca = tca and steps = "[]" and tcl = tca
      and lspb = "Span 62 84" and lmb = False and cn = "''c''"
      and ltyb = "Type MutRef (Some (Type I32 None (Span 71 74))) (Span 66 74)"
      and spb = "Span 70 76" and tb = None and ispb = "Span 75 75"
      and itb = None and mb = False and esp = "Span 62 68"
      and spa = "Span 62 67" and ta = None and ispa = "Span 62 62"
      and ita = None and ma = False and rhs = "IntLiteral (Span 66 66) None 2",
      THEN conjunct2, THEN conjunct2, THEN conjunct2, THEN conjunct2, rule_format,
      OF conjI, OF l conjI, OF n conjI, OF r0 a0]
  obtain e3 where
    c: "check_statement []
          (LetStmt (Span 62 84) False ''c''
             (Type MutRef (Some (Type I32 None (Span 71 74))) (Span 66 74))
             (BorrowExpr (Span 70 76) None True (Identifier (Span 75 75) None ''v'' False))) tca
          = Some (False,
                  LetStmt (Span 62 84) False ''c''
                    (Type MutRef (Some (Type I32 None (Span 71 74))) (Span 66 74)) e3,
                  error (''Variable already mutably borrowed: '' @ ''v'') (Span 70 76) tca)"
    and d: "check_statement []
          (ExprStmt (Span 62 68)
             (BinaryExpr (Span 62 67) None Assignment (Identifier (Span 62 62) None ''v'' False)
                (IntLiteral (Span 66 66) None 2))) tca
          = Some (False,
                  ExprStmt (Span 62 68)
                    (BinaryExpr (Span 62 67) None Assignment
                       (Identifier (Span 62 62) None ''v'' False)
                       (IntLiteral (Span 66 66) None 2)),
                  error (''Cannot use variable while mutably borrowed: '' @ ''v'') (Span 62 67) tca)"
    by blast
  show ?thesis
    apply (rule exI[of _ e'], rule exI[of _ tc'], rule exI[of _ e2], rule exI[of _ var_info])
    apply (rule exI[of _ tcl], rule exI[of _ found], rule exI[of _ sl], rule exI[of _ tca])
    apply (rule exI[of _ e3])
    apply (intro conjI)
    apply (rule h b a nf lk g r later_steps_allowed f l n r0 c d)+
    done
qed

lemma release_steps_run:
  "case run_steps [] release_steps (mark_mutably_borrowed ''v'' (Span 52 58) outer_v) of
     Some tcl \<Rightarrow> length (scopes tcl) = 1 | None \<Rightarrow> False"
  unfolding release_steps_def outer_v_def by code_simp

lemma release_steps_stay:
  "frame_stays [] 0 release_steps (mark_mutably_borrowed ''v'' (Span 52 58) outer_v)"
  unfolding release_steps_def outer_v_def by code_simp

theorem mutable_borrow_never_released_witness:
  "\<exists>e' tc' tcl vi e2 tcb.
      check_expression []
        (BorrowExpr (Span 52 58) None True (Identifier (Span 57 57) None ''v'' False)) outer_v
        = Some (True, e', tc')
      \<and> length (scopes tc') = length (scopes outer_v) \<and> errors tc' = errors outer_v
      \<and> scopes tc' ! 0
          = (scopes outer_v ! 0)
              (''v'' \<mapsto> VariableInfo
                            (Type MutRef (Some (Type I32 None (Span 23 26))) (Span 52 58)) True)
      \<and> scopes tc' ! 1 = scopes outer_v ! 1
      \<and> 0 < length (scopes outer_v) \<and> (scopes outer_v ! 0) ''v'' \<noteq> None
      \<and> run_steps [] release_steps tc' = Some tcl
      \<and> frame_stays [] 0 release_steps tc'
      \<and> length (scopes tcl) = 1
      \<and> (scopes tcl ! 0) ''v'' = Some vi \<and> kind (vi_type vi) = MutRef
      \<and> check_expression []
          (BinaryExpr (Span 62 67) None Assignment (Identifier (Span 62 62) None ''v'' False)
             (IntLiteral (Span 66 66) None 2)) tcl
          = Some (False,
                  BinaryExpr (Span 62 67) None Assignment (Identifier (Span 62 62) None ''v'' False)
                    (IntLiteral (Span 66 66) None 2),
                  error (''Cannot use variable while mutably borrowed: '' @ ''v'') (Span 62 67) tcl)
      \<and> check_expression []
          (BorrowExpr (Span 70 76) None True (Identifier (Span 75 75) None ''v'' False)) tcl
          = Some (False, e2, tcb)"
proof -
  from borrow_v_checked obtain e' tc' where
    h: "check_expression []
          (BorrowExpr (Span 52 58) None True (Identifier (Span 57 57) None ''v'' False)) outer_v
          = Some (True, e', tc')"
    by (auto split: option.splits)
  from mut_borrow_success[OF h] have
    tc': "tc' = mark_mutably_borrowed ''v'' (Span 52 58) outer_v" by blast
  from release_steps_run tc' obtain tcl where
    r: "run_steps [] release_steps tc' = Some tcl" and len: "length (scopes tcl) = 1"
    by (auto split: option.splits)
  from release_steps_stay tc' have st: "frame_stays [] 0 release_steps tc'" by simp
  have k: "0 < length (scopes outer_v)" by (simp add: outer_v_def)
  have one: "1 < length (scopes outer_v)" by (simp add: outer_v_def)
  have e0: "(scopes outer_v ! 0) ''v'' = Some (VariableInfo (Type I32 None (Span 23 26)) True)"
    by (simp add: outer_v_def)
  have e1: "(scopes outer_v ! 1) ''v'' = None" by (simp add: outer_v_def)
  from e0 have ne: "(scopes outer_v ! 0) ''v'' \<noteq> None" by simp
  have o: "one_reference (Type I32 None (Span 23 26))" by (simp add: one_reference_def)
  note t = mutable_borrow_never_released[where prog = "[]" and v = "''v''" and tc = outer_v
      and sp = "Span 52 58" and t = None and isp = "Span 57 57" and m = False
      and e' = e' and tc' = tc' and k = 0 and steps = release_steps and tcl = tcl
      and spb = "Span 70 76" and tb = None and ispb = "Span 75 75"
      and itb = None and mb = False and spa = "Span 62 67" and ta = None and ispa = "Span 62 62"
      and ita = None and ma = False and rhs = "IntLiteral (Span 66 66) None 2"]
  note t1 = t[THEN conjunct1, rule_format, OF h]
  from t1 have l1: "length (scopes tc') = length (scopes outer_v)"
    and l2: "errors tc' = errors outer_v" by blast+
  from t1 have "\<forall>i<length (scopes outer_v).
            case (scopes outer_v ! i) ''v'' of
              None \<Rightarrow> scopes tc' ! i = scopes outer_v ! i
            | Some vi \<Rightarrow>
                \<exists>ty'. scopes tc' ! i = (scopes outer_v ! i)(''v'' \<mapsto> VariableInfo ty' (vi_is_mut vi))
                     \<and> kind ty' = MutRef
                     \<and> map_option kind (base_type ty') = Some (kind (vi_type vi))
                     \<and> (one_reference (vi_type vi)
                          \<longrightarrow> ty' = Type MutRef (Some (vi_type vi)) (Span 52 58))"
    by blast
  from this[rule_format, OF k] this[rule_format, OF one] e0 e1 o
  have m0: "scopes tc' ! 0
          = (scopes outer_v ! 0)
              (''v'' \<mapsto> VariableInfo
                            (Type MutRef (Some (Type I32 None (Span 23 26))) (Span 52 58)) True)"
    and m1: "scopes tc' ! 1 = scopes outer_v ! 1" by auto
  note t2 = t[THEN conjunct2, rule_format, OF conjI, OF h conjI, OF k conjI, OF ne conjI, OF r st]
  from t2 obtain vi where
    v: "(scopes tcl ! 0) ''v'' = Some vi" "kind (vi_type vi) = MutRef" by blast
  from len have vis: "\<forall>j<length (scopes tcl). 0 < j \<longrightarrow> (scopes tcl ! j) ''v'' = None" by simp
  from t2 vis obtain e2 tcb where
    a: "check_expression []
          (BinaryExpr (Span 62 67) None Assignment (Identifier (Span 62 62) None ''v'' False)
             (IntLiteral (Span 66 66) None 2)) tcl
          = Some (False,
                  BinaryExpr (Span 62 67) None Assignment (Identifier (Span 62 62) None ''v'' False)
                    (IntLiteral (Span 66 66) None 2),
                  error (''Cannot use variable while mutably borrowed: '' @ ''v'') (Span 62 67) tcl)"
    and b: "check_expression []
          (BorrowExpr (Span 70 76) None True (Identifier (Span 75 75) None ''v'' False)) tcl
          = Some (False, e2, tcb)"
    by blast
  show ?thesis
    apply (rule exI[of _ e'], rule exI[of _ tc'], rule exI[of _ tcl], rule exI[of _ vi])
    apply (rule exI[of _ e2], rule exI[of _ tcb])
    apply (intro conjI)
    apply (rule h l1 l2 m0 m1 k ne r st len v a b)+
    done
qed

text \<open>
  C8 as stated fails. \<^verbatim>\<open>v\<close> is declared in the body of \<^verbatim>\<open>main\<close> and borrowed in an
  inner block; after that block the assignment \<^verbatim>\<open>v = 2\<close> is still rejected.
\<close>

theorem borrow_outlives_inner_scope:
  "(case parse ''fn main() { let mut v: i32 = 1; { let w: &mut i32 = &mut v; } v = 2; let z: i32 = 0; }'' of
      Some (Inr program) \<Rightarrow>
        (case check_program program TypeChecker_new of
           Some (ok, program', tc) \<Rightarrow>
             \<not> ok
             \<and> errors tc
                 = [''Type error at 62:67: Cannot use variable while mutably borrowed: v'']
         | None \<Rightarrow> False)
    | _ \<Rightarrow> False)"
  by code_simp

text \<open>
  The three programs below through the parser and \<^verbatim>\<open>check_program\<close>: two
  \<^verbatim>\<open>let\<close> statements that borrow \<^verbatim>\<open>z\<close> mutably, the same with a block that shadows
  \<^verbatim>\<open>z\<close> between them, and an assignment to \<^verbatim>\<open>z\<close> after the borrow. Each is rejected
  with the one error of its second use of \<^verbatim>\<open>z\<close>.
\<close>

lemma consecutive_borrows_rejected:
  "(case parse ''fn main() { let mut z: i32 = 10; let b: &mut i32 = &mut z; let c: &mut i32 = &mut z; }'' of
      Some (Inr program) \<Rightarrow>
        (case check_program program TypeChecker_new of
           Some (ok, program', tc) \<Rightarrow>
             \<not> ok
             \<and> errors tc = [''Type error at 77:83: Variable already mutably borrowed: z'']
         | None \<Rightarrow> False)
    | _ \<Rightarrow> False)"
  by code_simp

lemma borrow_survives_shadowing_block:
  "(case parse ''fn main() { let mut z: i32 = 10; let b: &mut i32 = &mut z; { let z: i32 = 1; } let c: &mut i32 = &mut z; }'' of
      Some (Inr program) \<Rightarrow>
        (case check_program program TypeChecker_new of
           Some (ok, program', tc) \<Rightarrow>
             \<not> ok
             \<and> errors tc = [''Type error at 97:103: Variable already mutably borrowed: z'']
         | None \<Rightarrow> False)
    | _ \<Rightarrow> False)"
  by code_simp

lemma assignment_while_borrowed_rejected:
  "(case parse ''fn main() { let mut z: i32 = 10; let w: &mut i32 = &mut z; z = 20; let y: i32 = 0; }'' of
      Some (Inr program) \<Rightarrow>
        (case check_program program TypeChecker_new of
           Some (ok, program', tc) \<Rightarrow>
             \<not> ok
             \<and> errors tc
                 = [''Type error at 59:65: Cannot use variable while mutably borrowed: z'']
         | None \<Rightarrow> False)
    | _ \<Rightarrow> False)"
  by code_simp

section \<open>Assignment parsing and nested references\<close>

lemma invalid_assignment_target:
  assumes "parse_or n expr_rec start = Some (Inr (lhs, c))" and "fst (match c ''='')"
    and "\<not> is_Identifier lhs"
  shows "parse_assignment (Suc n) expr_rec start
           = Some (Inl (runtime_error ''Invalid assignment target''))"
  using assms by (cases "match c ''=''") (simp add: bind_parse_def parse_throw_def)

lemma assignment_right_operand:
  assumes "parse_or n expr_rec start = Some (Inr (lhs, c))" and "match c ''='' = (True, c1)"
    and "is_Identifier lhs"
    and "parse_assignment n expr_rec (skip_whitespace c1) = Some (Inr (rhs, c2))"
  shows "parse_assignment (Suc n) expr_rec start
           = Some (Inr (BinaryExpr (Span (span_start (expr_span lhs)) (pos c2)) None Assignment
                          lhs rhs, c2))"
  using assms by (simp add: bind_parse_def parse_return_def)

lemma parentheses_transparent:
  assumes "skip_whitespace start = Cursor p (CHR ''('' # r)"
    and "expr_rec (Cursor (p + 1) r) = Some (Inr (e, c2))" and "match c2 '')'' = (True, c3)"
  shows "parse_primary expr_rec start = Some (Inr (e, c3))"
  using assms
  by (simp add: parse_primary_def Let_def char_at_def isdigit_def isalpha_def match_def peek_def
        advance_def bind_parse_def parse_return_def expect_def)

text \<open>
  C7. \<^verbatim>\<open>x = y = 5\<close> parses to an assignment whose right operand is the assignment
  \<^verbatim>\<open>y = 5\<close>, and \<^verbatim>\<open>(x) = 20\<close> to an assignment to the identifier \<^verbatim>\<open>x\<close>; the
  program with the statement \<^verbatim>\<open>x + 1 = 10\<close> makes the parser throw ``Invalid assignment
  target''. In general: when the left operand that \<^verbatim>\<open>parse_or\<close> returns is followed by
  \<^verbatim>\<open>=\<close> and is not an \<^verbatim>\<open>Identifier\<close>, \<^verbatim>\<open>parse_assignment\<close> throws that error;
  when it is one, the right operand is what \<^verbatim>\<open>parse_assignment\<close> itself returns behind
  the \<^verbatim>\<open>=\<close>; and \<^verbatim>\<open>parse_primary\<close> returns for a parenthesised expression the very
  node of the expression inside, so parentheses of any depth leave an identifier an
  \<^verbatim>\<open>Identifier\<close>.
\<close>

theorem assignment_parsing:
  "parse_expr 20 (Cursor 0 ''x = y = 5'')
     = Some (Inr (BinaryExpr (Span 0 9) None Assignment (Identifier (Span 0 0) None ''x'' False)
                    (BinaryExpr (Span 4 9) None Assignment
                       (Identifier (Span 4 4) None ''y'' False)
                       (IntLiteral (Span 8 8) None 5)),
                  Cursor 9 []))
   \<and> parse_expr 20 (Cursor 0 ''(x) = 20'')
     = Some (Inr (BinaryExpr (Span 1 8) None Assignment (Identifier (Span 1 1) None ''x'' False)
                    (IntLiteral (Span 6 6) None 20),
                  Cursor 8 []))
   \<and> parse ''fn main() { x + 1 = 10; }''
     = Some (Inl (runtime_error ''Invalid assignment target''))
   \<and> (parse_or n expr_rec start = Some (Inr (lhs, c)) \<and> fst (match c ''='')
        \<and> \<not> is_Identifier lhs \<longrightarrow>
      parse_assignment (Suc n) expr_rec start
        = Some (Inl (runtime_error ''Invalid assignment target'')))
   \<and> (parse_or n expr_rec start = Some (Inr (lhs, c)) \<and> match c ''='' = (True, c1)
        \<and> is_Identifier lhs
        \<and> parse_assignment n expr_rec (skip_whitespace c1) = Some (Inr (rhs, c2)) \<longrightarrow>
      parse_assignment (Suc n) expr_rec start
        = Some (Inr (BinaryExpr (Span (span_start (expr_span lhs)) (pos c2)) None Assignment
                       lhs rhs, c2)))
   \<and> (skip_whitespace start = Cursor p (CHR ''('' # r)
        \<and> expr_rec (Cursor (p + 1) r) = Some (Inr (e, c3)) \<and> match c3 '')'' = (True, c4) \<longrightarrow>
      parse_primary expr_rec start = Some (Inr (e, c4)))"
proof (intro conjI impI)
  show "parse_expr 20 (Cursor 0 ''x = y = 5'')
     = Some (Inr (BinaryExpr (Span 0 9) None Assignment (Identifier (Span 0 0) None ''x'' False)
                    (BinaryExpr (Span 4 9) None Assignment
                       (Identifier (Span 4 4) None ''y'' False)
                       (IntLiteral (Span 8 8) None 5)),
                  Cursor 9 []))"
    by code_simp
  show "parse_expr 20 (Cursor 0 ''(x) = 20'')
     = Some (Inr (BinaryExpr (Span 1 8) None Assignment (Identifier (Span 1 1) None ''x'' False)
                    (IntLiteral (Span 6 6) None 20),
                  Cursor 8 []))"
    by code_simp
  show "parse ''fn main() { x + 1 = 10; }''
     = Some (Inl (runtime_error ''Invalid assignment target''))"
    by code_simp
next
  assume "parse_or n expr_rec start = Some (Inr (lhs, c)) \<and> fst (match c ''='')
        \<and> \<not> is_Identifier lhs"
  then show "parse_assignment (Suc n) expr_rec start
        = Some (Inl (runtime_error ''Invalid assignment target''))"
    using invalid_assignment_target by blast
next
  assume "parse_or n expr_rec start = Some (Inr (lhs, c)) \<and> match c ''='' = (True, c1)
        \<and> is_Identifier lhs
        \<and> parse_assignment n expr_rec (skip_whitespace c1) = Some (Inr (rhs, c2))"
  then show "parse_assignment (Suc n) expr_rec start
        = Some (Inr (BinaryExpr (Span (span_start (expr_span lhs)) (pos c2)) None Assignment
                       lhs rhs, c2))"
    using assignment_right_operand by blast
next
  assume "skip_whitespace start = Cursor p (CHR ''('' # r)
        \<and> expr_rec (Cursor (p + 1) r) = Some (Inr (e, c3)) \<and> match c3 '')'' = (True, c4)"
  then show "parse_primary expr_rec start = Some (Inr (e, c4))"
    using parentheses_transparent by blast
qed

theorem assignment_parsing_witness:
  "parse_or 19 (parse_expr 19) (Cursor 0 ''x + 1 = 10'')
     = Some (Inr (BinaryExpr (Span 0 6) None Add (Identifier (Span 0 0) None ''x'' False)
                    (IntLiteral (Span 4 4) None 1), Cursor 6 ''= 10''))
   \<and> fst (match (Cursor 6 ''= 10'') ''='')
   \<and> \<not> is_Identifier (BinaryExpr (Span 0 6) None Add (Identifier (Span 0 0) None ''x'' False)
                         (IntLiteral (Span 4 4) None 1))
   \<and> parse_assignment (Suc 19) (parse_expr 19) (Cursor 0 ''x + 1 = 10'')
       = Some (Inl (runtime_error ''Invalid assignment target''))
   \<and> parse_or 19 (parse_expr 19) (Cursor 0 ''a = 1'')
       = Some (Inr (Identifier (Span 0 0) None ''a'' False, Cursor 2 ''= 1''))
   \<and> match (Cursor 2 ''= 1'') ''='' = (True, Cursor 3 '' 1'')
   \<and> is_Identifier (Identifier (Span 0 0) None ''a'' False)
   \<and> parse_assignment 19 (parse_expr 19) (skip_whitespace (Cursor 3 '' 1''))
       = Some (Inr (IntLiteral (Span 4 4) None 1, Cursor 5 []))
   \<and> parse_assignment (Suc 19) (parse_expr 19) (Cursor 0 ''a = 1'')
       = Some (Inr (BinaryExpr (Span 0 5) None Assignment (Identifier (Span 0 0) None ''a'' False)
                      (IntLiteral (Span 4 4) None 1), Cursor 5 []))
   \<and> skip_whitespace (Cursor 0 ''(x)'') = Cursor 0 (CHR ''('' # ''x)'')
   \<and> parse_expr 19 (Cursor (0 + 1) ''x)'')
       = Some (Inr (Identifier (Span 1 1) None ''x'' False, Cursor 2 '')''))
   \<and> match (Cursor 2 '')'') '')'' = (True, Cursor 3 [])
   \<and> parse_primary (parse_expr 19) (Cursor 0 ''(x)'')
       = Some (Inr (Identifier (Span 1 1) None ''x'' False, Cursor 3 []))"
proof -
  have a1: "parse_or 19 (parse_expr 19) (Cursor 0 ''x + 1 = 10'')
     = Some (Inr (BinaryExpr (Span 0 6) None Add (Identifier (Span 0 0) None ''x'' False)
                    (IntLiteral (Span 4 4) None 1), Cursor 6 ''= 10''))"
    by code_simp
  have a2: "fst (match (Cursor 6 ''= 10'') ''='')" by code_simp
  have a3: "\<not> is_Identifier (BinaryExpr (Span 0 6) None Add
                (Identifier (Span 0 0) None ''x'' False) (IntLiteral (Span 4 4) None 1))"
    by simp
  have b1: "parse_or 19 (parse_expr 19) (Cursor 0 ''a = 1'')
       = Some (Inr (Identifier (Span 0 0) None ''a'' False, Cursor 2 ''= 1''))"
    by code_simp
  have b2: "match (Cursor 2 ''= 1'') ''='' = (True, Cursor 3 '' 1'')" by code_simp
  have b3: "is_Identifier (Identifier (Span 0 0) None ''a'' False)" by simp
  have b4: "parse_assignment 19 (parse_expr 19) (skip_whitespace (Cursor 3 '' 1''))
       = Some (Inr (IntLiteral (Span 4 4) None 1, Cursor 5 []))"
    by code_simp
  have c1: "skip_whitespace (Cursor 0 ''(x)'') = Cursor 0 (CHR ''('' # ''x)'')" by code_simp
  have c2: "parse_expr 19 (Cursor (0 + 1) ''x)'')
       = Some (Inr (Identifier (Span 1 1) None ''x'' False, Cursor 2 '')''))"
    by code_simp
  have c3: "match (Cursor 2 '')'') '')'' = (True, Cursor 3 [])" by code_simp
  note t = assignment_parsing[where expr_rec = "parse_expr 19" and n = 19,
      THEN conjunct2, THEN conjunct2, THEN conjunct2]
  from t[THEN conjunct1, rule_format, OF conjI, OF a1 conjI, OF a2 a3]
  have r1: "parse_assignment (Suc 19) (parse_expr 19) (Cursor 0 ''x + 1 = 10'')
       = Some (Inl (runtime_error ''Invalid assignment target''))" .
  from t[THEN conjunct2, THEN conjunct1, rule_format, OF conjI, OF b1 conjI, OF b2 conjI, OF b3 b4]
  have r2: "parse_assignment (Suc 19) (parse_expr 19) (Cursor 0 ''a = 1'')
       = Some (Inr (BinaryExpr (Span 0 5) None Assignment (Identifier (Span 0 0) None ''a'' False)
                      (IntLiteral (Span 4 4) None 1), Cursor 5 []))"
    by simp
  from t[THEN conjunct2, THEN conjunct2, rule_format, OF conjI, OF c1 conjI, OF c2 c3]
  have r3: "parse_primary (parse_expr 19) (Cursor 0 ''(x)'')
       = Some (Inr (Identifier (Span 1 1) None ''x'' False, Cursor 3 []))" .
  from a1 a2 a3 r1 b1 b2 b3 b4 r2 c1 c2 c3 r3 show ?thesis by blast
qed

text \<open>
  C4 fails on the code. The program below passes the checker, yet the type written into
  the slot of the expression \<^verbatim>\<open>y\<close> and the type stored for \<^verbatim>\<open>y\<close> in the scope are
  both a \<^verbatim>\<open>Ref\<close> whose base is a \<^verbatim>\<open>Ref\<close> with a null \<^verbatim>\<open>base_type\<close>: the hand
  copies of the checker keep two levels of a type only.
\<close>

theorem nested_reference_loses_base:
  "(case parse ''fn main() { let x: i32 = 1; let y: &&i32 = &&x; y; let z: i32 = 0; }'' of
      Some (Inr program) \<Rightarrow>
        (case check_program program TypeChecker_new of
           Some (ok, program', tc) \<Rightarrow>
             ok
             \<and> (case body (hd (items program')) of
                  BlockStmt sp stmts \<Rightarrow>
                    stmts ! 2
                      = ExprStmt (Span 48 50)
                          (Identifier (Span 48 48)
                             (Some (Type Ref (Some (Type Ref None (Span 36 40))) (Span 48 48)))
                             ''y'' False)
                | _ \<Rightarrow> False)
             \<and> (case body (hd (items program)) of
                  BlockStmt sp stmts \<Rightarrow>
                    (case check_statement (items program) (stmts ! 0)
                            (enter_scope (enter_scope TypeChecker_new)) of
                       Some (ok1, s1, tc1) \<Rightarrow>
                         (case check_statement (items program) (stmts ! 1) tc1 of
                            Some (ok2, s2, tc2) \<Rightarrow>
                              ok1 \<and> ok2
                              \<and> last (scopes tc2) ''y''
                                  = Some (VariableInfo
                                            (Type Ref (Some (Type Ref None (Span 36 40)))
                                               (Span 35 40)) False)
                          | None \<Rightarrow> False)
                     | None \<Rightarrow> False)
                | _ \<Rightarrow> False)
         | None \<Rightarrow> False)
    | _ \<Rightarrow> False)"
  by code_simp

section \<open>Reading the listing back\<close>

lemma digit_char_of_char: "d < 10 \<Longrightarrow> (of_char (digit_char d) :: nat) = 48 + d"
  by (simp add: digit_char_def)

lemma digit_char_isdigit: "d < 10 \<Longrightarrow> isdigit (digit_char d)"
  by (simp add: isdigit_def digit_char_of_char)

lemma isdigit_word_char: "isdigit c \<Longrightarrow> word_char c"
  by (auto simp: isdigit_def word_char_def isspace_def Let_def)

lemma to_string_digits: "list_all isdigit (to_string n) \<and> to_string n \<noteq> []"
proof (induction n rule: to_string.induct)
  case (1 n)
  show ?case
  proof (cases "n < 10")
    case True
    then show ?thesis by (simp add: to_string.simps[of n] digit_char_isdigit)
  next
    case False
    with 1 show ?thesis by (simp add: to_string.simps[of n] digit_char_isdigit)
  qed
qed

lemma decimal_value_snoc:
  "decimal_value (xs @ [c]) = 10 * decimal_value xs + (of_char c - 48)"
  by (simp add: decimal_value_def)

lemma digit_char_int: "d < 10 \<Longrightarrow> (of_char (digit_char d) :: int) = 48 + int d"
proof -
  assume "d < 10"
  then have "(of_char (digit_char d) :: nat) = 48 + d" by (rule digit_char_of_char)
  then have "int (of_char (digit_char d)) = int (48 + d)" by simp
  then show ?thesis by (simp add: of_nat_of_char)
qed

lemma decimal_value_to_string: "decimal_value (to_string n) = int n"
proof (induction n rule: to_string.induct)
  case (1 n)
  show ?case
  proof (cases "n < 10")
    case True
    then show ?thesis
      by (simp add: to_string.simps[of n] decimal_value_def digit_char_int)
  next
    case False
    with 1 have "decimal_value (to_string (n div 10)) = int (n div 10)" by simp
    with False show ?thesis
      by (simp add: to_string.simps[of n] decimal_value_snoc digit_char_int zdiv_int zmod_int)
  qed
qed

lemma read_decimal_to_string: "read_decimal (to_string (unat w)) = Some w"
  using to_string_digits[of "unat w"]
  by (simp add: read_decimal_def decimal_value_to_string)

lemma opcode_of_string_inverse: "opcode_of_string (opcode_to_string opc) = Some opc"
  by (cases opc) (simp_all add: opcode_of_string_def all_opcodes_def)

lemma opcode_string_word: "list_all word_char (opcode_to_string opc) \<and> opcode_to_string opc \<noteq> []"
  by (cases opc) (simp_all add: word_char_def isspace_def)

lemma split_step:
  "list_all (\<lambda>c. \<not> isspace c) w \<Longrightarrow>
     foldr (\<lambda>c ws. if isspace c then [] # ws else (c # hd ws) # tl ws) (w @ r) [[]]
       = (w @ hd (foldr (\<lambda>c ws. if isspace c then [] # ws else (c # hd ws) # tl ws) r [[]]))
           # tl (foldr (\<lambda>c ws. if isspace c then [] # ws else (c # hd ws) # tl ws) r [[]])"
proof (induction w)
  case Nil
  have "foldr (\<lambda>c ws. if isspace c then [] # ws else (c # hd ws) # tl ws) r [[]] \<noteq> []"
    by (induction r) auto
  then show ?case by simp
next
  case (Cons c w)
  then show ?case by simp
qed

lemma split_one: "list_all word_char w \<Longrightarrow> w \<noteq> [] \<Longrightarrow> split_ws w = [w]"
  using split_step[of w "[]"] by (simp add: split_ws_def word_char_def list_all_iff)

lemma split_two:
  assumes "list_all word_char w1" "w1 \<noteq> []" "list_all word_char w2" "w2 \<noteq> []"
  shows "split_ws (w1 @ '' '' @ w2) = [w1, w2]"
proof -
  have s: "isspace CHR '' ''" by (simp add: isspace_def)
  have n1: "list_all (\<lambda>c. \<not> isspace c) w1" and n2: "list_all (\<lambda>c. \<not> isspace c) w2"
    using assms by (simp_all add: word_char_def list_all_iff)
  from split_step[OF n2, of "[]"] have
    "foldr (\<lambda>c ws. if isspace c then [] # ws else (c # hd ws) # tl ws) w2 [[]] = [w2]" by simp
  with split_step[OF n1, of "CHR '' '' # w2"] s assms show ?thesis
    by (simp add: split_ws_def)
qed

lemma has_operand_opcode: "has_operand (Instruction (opcode ins) n) = has_operand ins"
  by (cases ins) simp

lemma read_asm_line_two:
  "split_ws line = [w, d] \<Longrightarrow> opcode_of_string w = Some opc
    \<Longrightarrow> has_operand (Instruction opc 0) \<Longrightarrow> read_decimal d = Some n
    \<Longrightarrow> read_asm_line line = Some (Instruction opc n)"
  by (simp add: read_asm_line_def del: has_operand.simps)

lemma read_asm_line_one:
  "split_ws line = [w] \<Longrightarrow> opcode_of_string w = Some opc
    \<Longrightarrow> \<not> has_operand (Instruction opc 0)
    \<Longrightarrow> read_asm_line line = Some (Instruction opc 0)"
  by (simp add: read_asm_line_def del: has_operand.simps)

lemma read_asm_line_text:
  assumes "well_formed ins"
  shows "read_asm_line (asm_text ins) = Some ins"
proof -
  obtain opc n where ins: "ins = Instruction opc n" by (cases ins)
  have h0: "has_operand (Instruction opc 0) = has_operand (Instruction opc n)" by simp
  note w = opcode_string_word[of opc]
  show ?thesis
  proof (cases "has_operand (Instruction opc n)")
    case True
    have d: "list_all word_char (to_string (unat n))"
      using to_string_digits[of "unat n"] isdigit_word_char by (auto simp: list_all_iff)
    from split_two[OF conjunct1[OF w] conjunct2[OF w] d conjunct2[OF to_string_digits]]
    have sp: "split_ws (opcode_to_string opc @ '' '' @ to_string (unat n))
            = [opcode_to_string opc, to_string (unat n)]" .
    have t: "asm_text ins = opcode_to_string opc @ '' '' @ to_string (unat n)"
      using True by (simp add: ins asm_text_def del: has_operand.simps)
    from True h0 have h: "has_operand (Instruction opc 0)" by blast
    have "read_asm_line (asm_text ins) = Some (Instruction opc n)"
      unfolding t
      by (rule read_asm_line_two[OF sp opcode_of_string_inverse h read_decimal_to_string])
    then show ?thesis unfolding ins .
  next
    case False
    with assms ins have z: "n = 0" by (simp add: well_formed_def del: has_operand.simps)
    from split_one[OF conjunct1[OF w] conjunct2[OF w]]
    have sp: "split_ws (opcode_to_string opc) = [opcode_to_string opc]" .
    have t: "asm_text ins = opcode_to_string opc"
      using False by (simp add: ins asm_text_def del: has_operand.simps)
    from False h0 have h: "\<not> has_operand (Instruction opc 0)" by blast
    have "read_asm_line (asm_text ins) = Some (Instruction opc 0)"
      unfolding t
      by (rule read_asm_line_one[OF sp opcode_of_string_inverse h])
    then show ?thesis unfolding ins z .
  qed
qed

lemma lines_of_step:
  "CHR 0x0A \<notin> set l \<Longrightarrow> lines_of acc (l @ CHR 0x0A # r) = (acc @ l) # lines_of [] r"
  by (induction l arbitrary: acc) auto

lemma asm_text_no_newline: "CHR 0x0A \<notin> set (asm_text ins)"
proof -
  have a: "CHR 0x0A \<notin> set (opcode_to_string (opcode ins))"
    using opcode_string_word[of "opcode ins"] by (auto simp: list_all_iff word_char_def)
  have b: "CHR 0x0A \<notin> set (to_string (unat (operand ins)))"
    using to_string_digits[of "unat (operand ins)"] isdigit_word_char
    by (auto simp: list_all_iff word_char_def)
  from a b show ?thesis by (simp add: asm_text_def)
qed

lemma asm_line_text: "asm_line ins = asm_text ins @ [CHR 0x0A]"
  by (simp add: asm_line_def asm_text_def)

lemma lines_of_write_asm: "lines_of [] (write_asm code) = map asm_text code"
proof (induction code)
  case Nil
  then show ?case by (simp add: write_asm_def)
next
  case (Cons ins code)
  have "write_asm (ins # code) = asm_text ins @ CHR 0x0A # write_asm code"
    by (simp add: write_asm_def asm_line_text)
  with lines_of_step[OF asm_text_no_newline, of "[]" ins "write_asm code"] Cons
  show ?case by simp
qed

lemma read_all_texts:
  "list_all well_formed code \<Longrightarrow> read_all (map asm_text code) = Some code"
  by (induction code) (simp_all add: read_asm_line_text)

lemma read_write_asm: "list_all well_formed code \<Longrightarrow> read_asm (write_asm code) = Some code"
  by (simp add: read_asm_def lines_of_write_asm read_all_texts)

lemma well_formed_emitted [simp]:
  "well_formed (Instruction0 opc)" "well_formed (Instruction LOAD n)"
  "well_formed (Instruction STORE n)" "well_formed (Instruction PUSH_I32 n)"
  "well_formed (Instruction PUSH_BOOL n)" "well_formed (Instruction PUSH_STR n)"
  "well_formed (Instruction CALL n)" "well_formed (Instruction JMP n)"
  "well_formed (Instruction JMP_IF_NOT n)"
  by (simp_all add: well_formed_def Instruction0_def)

lemma compile_expression_well_formed:
  "compile_expression e c = Inr c' \<Longrightarrow>
     list_all well_formed (instructions c) \<Longrightarrow> list_all well_formed (instructions c')"
  "compile_args es c = Inr c' \<Longrightarrow>
     list_all well_formed (instructions c) \<Longrightarrow> list_all well_formed (instructions c')"
proof (induction e c and es c arbitrary: c' and c' rule: compile_expression_compile_args.induct)
  case (1 sp t oper l r c)
  show ?case
  proof (cases "oper = Assignment")
    case True
    with "1.prems" obtain c1 where c1: "compile_expression r c = Inr c1"
      by (auto split: sum.splits)
    from "1.prems"(1) True c1 obtain index where
      "c' = emit (Instruction LOAD (of_nat index)) (emit (Instruction STORE (of_nat index)) c1)"
      by (auto split: sum.splits Expr.splits)
    with "1.IH"(1)[OF True c1 "1.prems"(2)] show ?thesis by (simp add: emit_def)
  next
    case False
    with "1.prems" obtain c1 c2 opc where
      c1: "compile_expression l c = Inr c1" and c2: "compile_expression r c1 = Inr c2"
      and c': "c' = emit (Instruction0 opc) c2"
      by (auto split: sum.splits)
    from "1.IH"(3)[OF False c1 c2 "1.IH"(2)[OF False c1 "1.prems"(2)]] c'
    show ?thesis by (simp add: emit_def)
  qed
next
  case (2 sp t oper e c)
  then show ?case by (auto simp: emit_def split: sum.splits)
next
  case (3 sp t v c)
  then show ?case by (auto simp: emit_def)
next
  case (4 sp t b c)
  then show ?case by (auto simp: emit_def)
next
  case (5 sp t s c)
  then show ?case by (auto simp: emit_def Let_def)
next
  case (6 sp t nm m c)
  then show ?case by (auto simp: emit_def split: sum.splits)
next
  case (7 sp t callee args c)
  from "7.prems" obtain c1 where c1: "compile_args args c = Inr c1"
    by (auto split: sum.splits)
  from "7.prems" c1 obtain n where "c' = emit (Instruction CALL n) c1"
    by (auto split: sum.splits Expr.splits)
  with "7.IH"[OF c1 "7.prems"(2)] show ?case by (simp add: emit_def)
next
  case (8 sp t m e c)
  then show ?case by (auto simp: emit_def split: sum.splits)
next
  case (9 c)
  then show ?case by simp
next
  case (10 a as c)
  from "10.prems" obtain c1 where c1: "compile_args as c = Inr c1"
    and c': "compile_expression a c1 = Inr c'" by (auto split: sum.splits)
  from "10.IH"(2)[OF c1 c' "10.IH"(1)[OF c1 "10.prems"(2)]] show ?case .
qed

section \<open>Operands of compiled code\<close>

lemma extends_nth:
  assumes "extends a b" and "i < length (instructions a)"
  shows "instructions b ! i = instructions a ! i"
proof -
  from assms have "take (length (instructions a)) (instructions b) ! i = instructions b ! i"
    by simp
  with assms show ?thesis by (simp add: extends_def)
qed

lemma patch_well_formed:
  assumes "list_all well_formed (instructions c)" and "i < length (instructions c)"
    and "has_operand (instructions c ! i)"
  shows "list_all well_formed (instructions (patch_operand i c))"
proof -
  have "well_formed (Instruction (opcode (instructions c ! i))
                       (of_nat (length (instructions c))))"
    using assms(3) by (simp add: well_formed_def has_operand_opcode del: has_operand.simps)
  with assms(1) show ?thesis
    by (simp add: patch_operand_def list_all_update)
qed

lemma patch_length [simp]: "length (instructions (patch_operand i c)) = length (instructions c)"
  by (simp add: patch_operand_def)

lemma patch_nth_other:
  "i \<noteq> j \<Longrightarrow> instructions (patch_operand i c) ! j = instructions c ! j"
  by (simp add: patch_operand_def)

lemma emit_nth_last: "instructions (emit ins c) ! length (instructions c) = ins"
  by (simp add: emit_def)

lemma emit_nth_before:
  "i < length (instructions c) \<Longrightarrow> instructions (emit ins c) ! i = instructions c ! i"
  by (simp add: emit_def nth_append)

lemma emit_length [simp]: "length (instructions (emit ins c)) = Suc (length (instructions c))"
  by (simp add: emit_def)

lemma emit_well_formed:
  "list_all well_formed (instructions c) \<Longrightarrow> well_formed ins
    \<Longrightarrow> list_all well_formed (instructions (emit ins c))"
  by (simp add: emit_def)

lemma compile_let_well_formed:
  assumes "compile_let nm init c = Inr c'" and "list_all well_formed (instructions c)"
  shows "list_all well_formed (instructions c')"
proof -
  from assms obtain c1 where c1: "compile_expression init c = Inr c1"
    by (auto simp: compile_let_def split: sum.splits)
  define c2 where
    "c2 = (if local_vars c1 nm = None
           then c1\<lparr>local_vars := (local_vars c1)(nm \<mapsto> next_local_index c1),
                   next_local_index := next_local_index c1 + 1\<rparr>
           else c1)"
  have c2: "instructions c2 = instructions c1" by (simp add: c2_def)
  have "\<exists>index. c' = emit (Instruction STORE (of_nat index)) c2"
    using assms c1 by (auto simp: compile_let_def Let_def c2_def split: sum.splits if_splits)
  then obtain index where c': "c' = emit (Instruction STORE (of_nat index)) c2" ..
  from compile_expression_well_formed(1)[OF c1 assms(2)] c2 show ?thesis
    unfolding c' by (simp add: emit_def)
qed

lemma compile_statement_well_formed:
  "compile_statement s c = Inr c' \<Longrightarrow>
     list_all well_formed (instructions c) \<Longrightarrow> list_all well_formed (instructions c')"
  "compile_block ss c = Inr c' \<Longrightarrow>
     list_all well_formed (instructions c) \<Longrightarrow> list_all well_formed (instructions c')"
proof (induction s c and ss c arbitrary: c' and c' rule: compile_statement_compile_block.induct)
  case (1 sp m nm ty init c)
  then show ?case using compile_let_well_formed by simp
next
  case (2 sp cond then_branch else_branch c)
  from "2.prems" obtain c1 where c1: "compile_expression cond c = Inr c1"
    by (auto split: sum.splits)
  define c2 where "c2 = emit (Instruction JMP_IF_NOT 0) c1"
  let ?i = "length (instructions c1)"
  have ei: "emit_instruction JMP_IF_NOT 0 c1 = (?i, c2)"
    by (simp add: emit_instruction_eq c2_def)
  from "2.prems" c1 ei obtain c3 where c3: "compile_statement then_branch c2 = Inr c3"
    by (auto split: sum.splits)
  have w1: "list_all well_formed (instructions c1)"
    using compile_expression_well_formed(1)[OF c1 "2.prems"(2)] .
  have w2: "list_all well_formed (instructions c2)"
    unfolding c2_def using w1 by (simp add: emit_def)
  have w3: "list_all well_formed (instructions c3)"
    using "2.IH"(1)[OF c1 ei[symmetric] c3 w2] .
  have e23: "extends c2 c3" using compile_statement_extends(1)[OF c3] by simp
  have i2: "?i < length (instructions c2)" by (simp add: c2_def)
  have i3: "?i < length (instructions c3)" using i2 extends_length[OF e23] by simp
  have n3: "instructions c3 ! ?i = Instruction JMP_IF_NOT 0"
    using extends_nth[OF e23 i2] by (simp add: c2_def emit_nth_last)
  show ?case
  proof (cases else_branch)
    case None
    with "2.prems" c1 ei c3 have c': "c' = patch_operand ?i c3" by simp
    show ?thesis unfolding c' using patch_well_formed[OF w3 i3] n3 by simp
  next
    case (Some els)
    define c4 where "c4 = emit (Instruction JMP 0) c3"
    let ?j = "length (instructions c3)"
    have ej: "emit_instruction JMP 0 c3 = (?j, c4)"
      by (simp add: emit_instruction_eq c4_def)
    from "2.prems" c1 ei c3 Some ej obtain c5 where
      c5: "compile_statement els (patch_operand ?i c4) = Inr c5"
      and c': "c' = patch_operand ?j c5"
      by (auto split: sum.splits)
    have w4: "list_all well_formed (instructions c4)"
      unfolding c4_def using w3 by (simp add: emit_def)
    have n4: "instructions c4 ! ?i = Instruction JMP_IF_NOT 0"
      unfolding c4_def using emit_nth_before[OF i3] n3 by simp
    have i4: "?i < length (instructions c4)" using i3 by (simp add: c4_def)
    have w4': "list_all well_formed (instructions (patch_operand ?i c4))"
      using patch_well_formed[OF w4 i4] n4 by simp
    have w5: "list_all well_formed (instructions c5)"
      using "2.IH"(2)[OF c1 ei[symmetric] c3 Some ej[symmetric] c5 w4'] .
    have e45: "extends (patch_operand ?i c4) c5"
      using compile_statement_extends(1)[OF c5] by simp
    have j4: "?j < length (instructions (patch_operand ?i c4))" by (simp add: c4_def)
    have "instructions (patch_operand ?i c4) ! ?j = instructions c4 ! ?j"
      using i3 by (intro patch_nth_other) simp
    then have nj: "instructions (patch_operand ?i c4) ! ?j = Instruction JMP 0"
      by (simp add: c4_def emit_nth_last)
    have n5: "instructions c5 ! ?j = Instruction JMP 0"
      using extends_nth[OF e45 j4] nj by simp
    have j5: "?j < length (instructions c5)" using j4 extends_length[OF e45] by simp
    show ?thesis unfolding c' using patch_well_formed[OF w5 j5] n5 by simp
  qed
next
  case (3 sp cond bdy c)
  from "3.prems" obtain c1 where c1: "compile_expression cond c = Inr c1"
    by (auto simp: Let_def split: sum.splits)
  define c2 where "c2 = emit (Instruction JMP_IF_NOT 0) c1"
  let ?i = "length (instructions c1)"
  have ei: "emit_instruction JMP_IF_NOT 0 c1 = (?i, c2)"
    by (simp add: emit_instruction_eq c2_def)
  from "3.prems" c1 ei obtain c3 where c3: "compile_statement bdy c2 = Inr c3"
    and c': "c' = patch_operand ?i (emit (Instruction JMP (of_nat (length (instructions c)))) c3)"
    by (auto simp: Let_def emit_instruction_eq split: sum.splits)
  have w1: "list_all well_formed (instructions c1)"
    using compile_expression_well_formed(1)[OF c1 "3.prems"(2)] .
  have w2: "list_all well_formed (instructions c2)"
    unfolding c2_def using w1 by (simp add: emit_def)
  have w3: "list_all well_formed (instructions c3)"
    using "3.IH"[OF refl c1 ei[symmetric] c3 w2] .
  have e23: "extends c2 c3" using compile_statement_extends(1)[OF c3] by simp
  have i2: "?i < length (instructions c2)" by (simp add: c2_def)
  have i3: "?i < length (instructions c3)" using i2 extends_length[OF e23] by simp
  have n3: "instructions c3 ! ?i = Instruction JMP_IF_NOT 0"
    using extends_nth[OF e23 i2] by (simp add: c2_def emit_nth_last)
  let ?c4 = "emit (Instruction JMP (of_nat (length (instructions c)))) c3"
  have w4: "list_all well_formed (instructions ?c4)" using w3 by (simp add: emit_def)
  have n4: "instructions ?c4 ! ?i = Instruction JMP_IF_NOT 0"
    using emit_nth_before[OF i3] n3 by simp
  have i4: "?i < length (instructions ?c4)" using i3 by simp
  show ?case unfolding c' using patch_well_formed[OF w4 i4] n4 by simp
next
  case (4 sp stmts c)
  then show ?case by simp
next
  case (5 sp e c)
  from "5.prems" obtain c1 where c1: "compile_expression e c = Inr c1"
    and c': "c' = emit (Instruction0 POP) c1" by (auto split: sum.splits)
  from compile_expression_well_formed(1)[OF c1 "5.prems"(2)] show ?case
    unfolding c' by (simp add: emit_def)
next
  case (6 c)
  then show ?case by simp
next
  case (7 s ss c)
  from "7.prems" obtain c1 where c1: "compile_statement s c = Inr c1"
    and c': "compile_block ss c1 = Inr c'" by (auto split: sum.splits)
  from "7.IH"(2)[OF c1 c' "7.IH"(1)[OF c1 "7.prems"(2)]] show ?case .
qed

lemma compile_function_well_formed:
  assumes "compile_function func c = Inr c'" and "list_all well_formed (instructions c)"
  shows "list_all well_formed (instructions c')"
proof -
  define c0 where
    "c0 = add_params (params func) (c\<lparr>local_vars := Map.empty, next_local_index := 0\<rparr>)"
  have i0: "instructions c0 = instructions c"
    by (simp add: c0_def add_params_instructions)
  from assms(1) obtain c1 c2 where c1: "compile_statement (body func) c0 = Inr c1"
    and c2: "c2 = emit (Instruction0 RET) c1 \<or> c2 = c1"
    and u: "update_function (fname func)
              (\<lambda>info. info\<lparr>num_locals := next_local_index c2\<rparr>) c2 = Inr c'"
    by (auto simp: compile_function_def Let_def c0_def split: sum.splits if_splits)
  from compile_statement_well_formed(1)[OF c1] assms(2) i0
  have "list_all well_formed (instructions c1)" by simp
  with c2 have "list_all well_formed (instructions c2)" by (auto simp: emit_def)
  with update_function_instructions[OF u] show ?thesis by simp
qed

lemma compile_functions_well_formed:
  "compile_functions fs c = Inr c' \<Longrightarrow> list_all well_formed (instructions c)
    \<Longrightarrow> list_all well_formed (instructions c')"
proof (induction fs arbitrary: c)
  case Nil
  then show ?case by simp
next
  case (Cons func fs)
  from Cons.prems(1) obtain c1 c2 where
    c1: "compile_function func c = Inr c1"
    and c2: "update_function (fname func)
               (\<lambda>info. info\<lparr>entry_point := length (instructions c)\<rparr>) c1 = Inr c2"
    and rest: "compile_functions fs c2 = Inr c'"
    by (auto simp: Let_def split: sum.splits)
  from compile_function_well_formed[OF c1 Cons.prems(2)] update_function_instructions[OF c2]
  have "list_all well_formed (instructions c2)" by simp
  from Cons.IH[OF rest this] show ?case .
qed

lemma compile_well_formed:
  assumes "compile program = Inr code"
  shows "list_all well_formed code"
proof -
  let ?c = "Compiler_new\<lparr>function_table := register_functions (items program)\<rparr>"
  from assms obtain c' where c': "compile_functions (items program) ?c = Inr c'"
    and code: "code = instructions c'"
    by (auto simp: compile_def compile_state_def split: sum.splits)
  have "list_all well_formed (instructions ?c)" by (simp add: Compiler_new_def)
  from compile_functions_well_formed[OF c' this] code show ?thesis by simp
qed

text \<open>
  C9. The listing that \<^verbatim>\<open>main\<close> writes for a code vector in which every instruction
  without an operand carries the operand 0 reads back, line by line, to that vector. Every
  vector the compiler returns is of that kind, so its listing reads back to it, and what
  reads back has the same \<^verbatim>\<open>.no\<close> bytes as the vector itself. The reader is the one the
  spec describes; \<open>size_t\<close> is 64 bits wide on both sides.
\<close>

theorem listing_round_trip:
  "(list_all well_formed code \<longrightarrow> read_asm (write_asm code) = Some code)
   \<and> (compile program = Inr code \<longrightarrow>
        read_asm (write_asm code) = Some code
        \<and> (\<forall>code'. read_asm (write_asm code) = Some code'
              \<longrightarrow> write_bytecode code' = write_bytecode code))"
  using read_write_asm compile_well_formed by auto

section \<open>The listing of a compiled program\<close>

theorem listing_round_trip_witness:
  "compile if_while_program = Inr if_while_code
   \<and> list_all well_formed if_while_code
   \<and> read_asm (write_asm if_while_code) = Some if_while_code
   \<and> (case read_asm (write_asm if_while_code) of
        Some code' \<Rightarrow> write_bytecode code' = write_bytecode if_while_code
      | None \<Rightarrow> False)
   \<and> write_asm [Instruction PUSH_I32 258, Instruction RET 0]
       = ''PUSH_I32 258'' @ [CHR 0x0A] @ ''RET'' @ [CHR 0x0A]
   \<and> write_bytecode [Instruction PUSH_I32 258, Instruction RET 0]
       = [0, 2, 1, 0, 0, 0, 0, 0, 0, 28]"
proof -
  have w: "list_all well_formed if_while_code"
    unfolding if_while_code_def by (simp add: well_formed_def)
  have a: "write_asm [Instruction PUSH_I32 258, Instruction RET 0]
       = ''PUSH_I32 258'' @ [CHR 0x0A] @ ''RET'' @ [CHR 0x0A]"
    by code_simp
  have b: "write_bytecode [Instruction PUSH_I32 258, Instruction RET 0]
       = [0, 2, 1, 0, 0, 0, 0, 0, 0, 28]"
    by code_simp
  from listing_round_trip[of if_while_code if_while_program] if_while_compiled
  have r: "read_asm (write_asm if_while_code) = Some if_while_code" by blast
  from r if_while_compiled w a b show ?thesis by simp
qed

end
